theory Spec2Isabelle
  imports Complex_Main "HOL-Library.Char_ord" "HOL-Library.List_Lexorder"
    "HOL-Library.Product_Lexorder" "HOL-Library.Multiset"
begin

section \<open>JavaScript values\<close>

text \<open>
  The engine is TypeScript running on a JavaScript runtime, so the values that flow through
  the query builder are JavaScript values. A number is a double: NaN, the two infinities, or
  a finite value (a rational here; \<open>+0\<close> and \<open>-0\<close> are both \<open>Fin 0\<close>, which is how
  \<open>===\<close>, \<open><\<close> and \<open>includes\<close> see them). A Date, an array, a plain object and a
  function carry a reference, because \<open>===\<close> and \<open>includes\<close> compare objects by identity:
  two values are the same object when they are of the same kind and carry the same reference.
  A string is a list of code units below 256.
\<close>

type_synonym ref = nat

datatype jsnum = NaN | NegInf | Fin rat | PosInf

datatype jsval =
    VUndefined
  | VNull
  | VBool bool
  | VNum jsnum
  | VStr string
  | VDate ref jsnum
  | VArr ref "jsval list"
  | VObj ref "(string \<times> jsval) list"
  | VFun ref

text \<open>A plain object as the list of its own properties, in \<open>Object.entries\<close> order.\<close>

type_synonym props = "(string \<times> jsval) list"

text \<open>
  Conversions of the runtime that the source never spells out and that this development does
  not fix: \<open>StringToNumber\<close> (used when a string meets a non-string under \<open><\<close>),
  the string an array, a plain object or a function turns into under \<open><\<close>,
  \<open>String.prototype.toLowerCase\<close>, and \<open>Array.prototype.sort\<close> with a comparator, whose
  algorithm is the implementation's. Every function below takes them as a parameter, so a
  theorem holds whatever they are, unless it says what it asks of them.
\<close>

record js_builtins =
  StringToNumber :: "string \<Rightarrow> jsnum"
  ObjectToString :: "jsval \<Rightarrow> string"
  toLowerCase :: "string \<Rightarrow> string"
  ArraySort :: "(props \<Rightarrow> props \<Rightarrow> int) \<Rightarrow> props list \<Rightarrow> props list"

text \<open>
  The own properties of an object: \<open>has_prop\<close> says whether \<open>k\<close> is one of them and
  \<open>get_prop\<close> reads it, \<open>undefined\<close> when it is not.
\<close>

definition has_prop :: "props \<Rightarrow> string \<Rightarrow> bool" where
  "has_prop o' k = (map_of o' k \<noteq> None)"

definition get_prop :: "props \<Rightarrow> string \<Rightarrow> jsval" where
  "get_prop o' k = (case map_of o' k of None \<Rightarrow> VUndefined | Some v \<Rightarrow> v)"

text \<open>
  \<open>o[k]\<close> and \<open>k in o\<close> go through the prototype chain. The records of a store are copies
  made by the backend and the conditions are object literals, so the chain of each is
  \<open>Object.prototype\<close>, whose properties are the functions below and the accessor
  \<open>__proto__\<close>, which gives \<open>Object.prototype\<close> itself, an object at a reference of its
  own that no object of the program has. \<open>read_prop\<close> is \<open>o[k]\<close>: the
  own property, else the inherited one, else \<open>undefined\<close>. No name that the source looks
  up with \<open>in\<close> or with a literal key (the operator keys and \<open>updatedAt\<close>) is inherited,
  so for those \<open>has_prop\<close> is \<open>k in o\<close> and \<open>get_prop\<close> is \<open>o[k]\<close>.
\<close>

definition object_prototype :: props where
  "object_prototype =
     [(''constructor'', VFun 0), (''__defineGetter__'', VFun 1), (''__defineSetter__'', VFun 2),
      (''hasOwnProperty'', VFun 3), (''__lookupGetter__'', VFun 4),
      (''__lookupSetter__'', VFun 5), (''isPrototypeOf'', VFun 6),
      (''propertyIsEnumerable'', VFun 7), (''toString'', VFun 8), (''valueOf'', VFun 9),
      (''toLocaleString'', VFun 10)]"

definition object_prototype_ref :: ref where
  "object_prototype_ref = 1"

definition inherited :: "string \<Rightarrow> jsval option" where
  "inherited k =
     (if k = ''__proto__'' then Some (VObj object_prototype_ref object_prototype)
      else map_of object_prototype k)"

definition read_prop :: "props \<Rightarrow> string \<Rightarrow> jsval" where
  "read_prop o' k =
     (case map_of o' k of
        Some v \<Rightarrow> v
      | None \<Rightarrow> (case inherited k of Some v \<Rightarrow> v | None \<Rightarrow> VUndefined))"

text \<open>Object spread \<open>{...target, ...src}\<close>: a key already present keeps its place.\<close>

fun set_prop :: "'k \<Rightarrow> 'v \<Rightarrow> ('k \<times> 'v) list \<Rightarrow> ('k \<times> 'v) list" where
  "set_prop k v [] = [(k, v)]"
| "set_prop k v ((k', v') # ps) = (if k = k' then (k, v) # ps else (k', v') # set_prop k v ps)"

definition spread :: "props \<Rightarrow> props \<Rightarrow> props" where
  "spread target src = fold (\<lambda>(k, v). set_prop k v) src target"

subsection \<open>Comparison operators\<close>

fun num_less :: "jsnum \<Rightarrow> jsnum \<Rightarrow> bool option" where
  "num_less NaN _ = None"
| "num_less _ NaN = None"
| "num_less (Fin a) (Fin b) = Some (a < b)"
| "num_less NegInf NegInf = Some False"
| "num_less NegInf _ = Some True"
| "num_less _ NegInf = Some False"
| "num_less PosInf _ = Some False"
| "num_less _ PosInf = Some True"

fun to_primitive :: "js_builtins \<Rightarrow> jsval \<Rightarrow> jsval" where
  "to_primitive B (VDate r t) = VNum t"
| "to_primitive B (VArr r xs) = VStr (ObjectToString B (VArr r xs))"
| "to_primitive B (VObj r ps) = VStr (ObjectToString B (VObj r ps))"
| "to_primitive B (VFun r) = VStr (ObjectToString B (VFun r))"
| "to_primitive B v = v"

fun to_number :: "js_builtins \<Rightarrow> jsval \<Rightarrow> jsnum" where
  "to_number B VUndefined = NaN"
| "to_number B VNull = Fin 0"
| "to_number B (VBool b) = Fin (if b then 1 else 0)"
| "to_number B (VNum n) = n"
| "to_number B (VStr s) = StringToNumber B s"
| "to_number B (VDate r t) = t"
| "to_number B (VArr r xs) = StringToNumber B (ObjectToString B (VArr r xs))"
| "to_number B (VObj r ps) = StringToNumber B (ObjectToString B (VObj r ps))"
| "to_number B (VFun r) = StringToNumber B (ObjectToString B (VFun r))"

text \<open>
  The abstract relational comparison \<open>x < y\<close>: two strings compare by code units, anything
  else as numbers; \<open>None\<close> is the result \<open>undefined\<close> that a NaN gives.
\<close>

definition js_less :: "js_builtins \<Rightarrow> jsval \<Rightarrow> jsval \<Rightarrow> bool option" where
  "js_less B x y =
     (case (to_primitive B x, to_primitive B y) of
        (VStr s, VStr t) \<Rightarrow> Some (s < t)
      | (px, py) \<Rightarrow> num_less (to_number B px) (to_number B py))"

definition js_lt :: "js_builtins \<Rightarrow> jsval \<Rightarrow> jsval \<Rightarrow> bool" where
  "js_lt B x y = (js_less B x y = Some True)"

definition js_gt :: "js_builtins \<Rightarrow> jsval \<Rightarrow> jsval \<Rightarrow> bool" where
  "js_gt B x y = (js_less B y x = Some True)"

definition js_le :: "js_builtins \<Rightarrow> jsval \<Rightarrow> jsval \<Rightarrow> bool" where
  "js_le B x y = (js_less B y x = Some False)"

definition js_ge :: "js_builtins \<Rightarrow> jsval \<Rightarrow> jsval \<Rightarrow> bool" where
  "js_ge B x y = (js_less B x y = Some False)"

text \<open>\<open>x === y\<close>, and the SameValueZero of \<open>Array.prototype.includes\<close> (NaN equals itself).\<close>

fun strict_eq :: "jsval \<Rightarrow> jsval \<Rightarrow> bool" where
  "strict_eq VUndefined VUndefined = True"
| "strict_eq VNull VNull = True"
| "strict_eq (VBool a) (VBool b) = (a = b)"
| "strict_eq (VNum a) (VNum b) = (a \<noteq> NaN \<and> a = b)"
| "strict_eq (VStr s) (VStr t) = (s = t)"
| "strict_eq (VDate r _) (VDate r' _) = (r = r')"
| "strict_eq (VArr r _) (VArr r' _) = (r = r')"
| "strict_eq (VObj r _) (VObj r' _) = (r = r')"
| "strict_eq (VFun r) (VFun r') = (r = r')"
| "strict_eq _ _ = False"

fun same_value_zero :: "jsval \<Rightarrow> jsval \<Rightarrow> bool" where
  "same_value_zero (VNum a) (VNum b) = (a = b)"
| "same_value_zero x y = strict_eq x y"

definition array_includes :: "jsval list \<Rightarrow> jsval \<Rightarrow> bool" where
  "array_includes xs v = list_ex (\<lambda>x. same_value_zero x v) xs"

text \<open>\<open>String.prototype.includes\<close>: the needle occurs at some position of the string.\<close>

fun string_includes :: "string \<Rightarrow> string \<Rightarrow> bool" where
  "string_includes [] needle = (needle = [])"
| "string_includes (c # cs) needle = (take (length needle) (c # cs) = needle \<or> string_includes cs needle)"

fun is_array :: "jsval \<Rightarrow> bool" where
  "is_array (VArr _ _) = True"
| "is_array _ = False"

fun is_string :: "jsval \<Rightarrow> bool" where
  "is_string (VStr _) = True"
| "is_string _ = False"

fun elems :: "jsval \<Rightarrow> jsval list" where
  "elems (VArr _ xs) = xs"
| "elems _ = []"

fun str_of :: "jsval \<Rightarrow> string" where
  "str_of (VStr s) = s"
| "str_of _ = []"

section \<open>The query builder\<close>

text \<open>
  \<open>class QueryBuilder\<close>: the conditions of \<open>where\<close> (one per field, in insertion order),
  the optional limit and the ordering keys in registration order. The limit is a JavaScript
  number, so it may be negative, fractional, infinite or NaN.
\<close>

datatype direction = Asc | Desc

record query_builder =
  conditions :: props
  limitValue :: "jsnum option"
  orderByConditions :: "(string \<times> direction) list"

definition new_QueryBuilder :: query_builder where
  "new_QueryBuilder = \<lparr>conditions = [], limitValue = None, orderByConditions = []\<rparr>"

definition where_q :: "props \<Rightarrow> query_builder \<Rightarrow> query_builder" where
  "where_q cs q = q\<lparr>conditions := spread (conditions q) cs\<rparr>"

definition limit :: "jsnum \<Rightarrow> query_builder \<Rightarrow> query_builder" where
  "limit n q = q\<lparr>limitValue := Some n\<rparr>"

definition orderBy :: "string \<Rightarrow> direction \<Rightarrow> query_builder \<Rightarrow> query_builder" where
  "orderBy field dir q = q\<lparr>orderByConditions := orderByConditions q @ [(field, dir)]\<rparr>"

text \<open>
  One entry of \<open>matches\<close>: the field value against its condition. A condition that is a
  plain object (not null, not an array, not a Date) is an operator object; the \<open>if\<close>s are
  those of the source, in its order, each \<open>return\<close> an \<open>else\<close>. Anything else (a function
  too, whose \<open>typeof\<close> is not \<open>"object"\<close>) is compared with \<open>===\<close>.
\<close>

fun match_condition :: "js_builtins \<Rightarrow> jsval \<Rightarrow> jsval \<Rightarrow> bool" where
  "match_condition B itemValue (VObj r c) =
     (if has_prop c ''equals'' then strict_eq itemValue (get_prop c ''equals'')
      else if has_prop c ''notEquals'' then \<not> strict_eq itemValue (get_prop c ''notEquals'')
      else if has_prop c ''greaterThan'' then
        itemValue \<noteq> VNull \<and> get_prop c ''greaterThan'' \<noteq> VNull
        \<and> js_gt B itemValue (get_prop c ''greaterThan'')
      else if has_prop c ''greaterThanOrEqual'' then
        itemValue \<noteq> VNull \<and> get_prop c ''greaterThanOrEqual'' \<noteq> VNull
        \<and> js_ge B itemValue (get_prop c ''greaterThanOrEqual'')
      else if has_prop c ''lessThan'' then
        itemValue \<noteq> VNull \<and> get_prop c ''lessThan'' \<noteq> VNull
        \<and> js_lt B itemValue (get_prop c ''lessThan'')
      else if has_prop c ''lessThanOrEqual'' then
        itemValue \<noteq> VNull \<and> get_prop c ''lessThanOrEqual'' \<noteq> VNull
        \<and> js_le B itemValue (get_prop c ''lessThanOrEqual'')
      else if has_prop c ''inArray'' \<and> is_array (get_prop c ''inArray'') then
        array_includes (elems (get_prop c ''inArray'')) itemValue
      else if has_prop c ''isBetween'' \<and> is_array (get_prop c ''isBetween'')
              \<and> length (elems (get_prop c ''isBetween'')) = 2 then
        (let minV = elems (get_prop c ''isBetween'') ! 0;
             maxV = elems (get_prop c ''isBetween'') ! 1
         in itemValue \<noteq> VNull \<and> minV \<noteq> VNull \<and> maxV \<noteq> VNull
            \<and> js_ge B itemValue minV \<and> js_le B itemValue maxV)
      else if has_prop c ''contains'' \<and> is_string itemValue
              \<and> is_string (get_prop c ''contains'') then
        string_includes (str_of itemValue) (str_of (get_prop c ''contains''))
      else if has_prop c ''looseContains'' \<and> is_string itemValue
              \<and> is_string (get_prop c ''looseContains'') then
        string_includes (toLowerCase B (str_of itemValue))
          (toLowerCase B (str_of (get_prop c ''looseContains'')))
      else False)"
| "match_condition B itemValue condition = strict_eq itemValue condition"

definition matches :: "js_builtins \<Rightarrow> query_builder \<Rightarrow> props \<Rightarrow> bool" where
  "matches B q item =
     list_all (\<lambda>(key, condition). match_condition B (read_prop item key) condition) (conditions q)"

text \<open>
  The comparator handed to \<open>sort\<close>: the \<open>for\<close> loop over the ordering keys, returning at
  the first key whose comparison is not 0.
\<close>

definition compare_field :: "js_builtins \<Rightarrow> string \<times> direction \<Rightarrow> props \<Rightarrow> props \<Rightarrow> int" where
  "compare_field B fd a b =
     (let valA = read_prop a (fst fd); valB = read_prop b (fst fd);
          comparison =
            (if valA = VNull \<and> valB \<noteq> VNull then - 1
             else if valA \<noteq> VNull \<and> valB = VNull then 1
             else if valA \<noteq> VNull \<and> valB \<noteq> VNull then
               (if js_lt B valA valB then - 1 else if js_gt B valA valB then 1 else 0)
             else 0)
      in if snd fd = Desc then comparison * (- 1) else comparison)"

fun compare_records :: "js_builtins \<Rightarrow> (string \<times> direction) list \<Rightarrow> props \<Rightarrow> props \<Rightarrow> int" where
  "compare_records B [] a b = 0"
| "compare_records B (fd # rest) a b =
     (if compare_field B fd a b \<noteq> 0 then compare_field B fd a b
      else compare_records B rest a b)"

text \<open>
  \<open>result.sort(...)\<close> is the runtime's, \<open>ArraySort\<close>. One sort that a runtime may have is
  the stable insertion sort below; the sample runtime of the examples has it.
\<close>

fun insert_by :: "('a \<Rightarrow> 'a \<Rightarrow> int) \<Rightarrow> 'a \<Rightarrow> 'a list \<Rightarrow> 'a list" where
  "insert_by cmp x [] = [x]"
| "insert_by cmp x (y # ys) = (if cmp x y \<le> 0 then x # y # ys else y # insert_by cmp x ys)"

definition sort_by :: "('a \<Rightarrow> 'a \<Rightarrow> int) \<Rightarrow> 'a list \<Rightarrow> 'a list" where
  "sort_by cmp xs = foldr (insert_by cmp) xs []"

text \<open>
  \<open>result.slice(0, end)\<close>: the end is truncated to an integer (NaN is 0), a negative end
  counts from the back, and the slice stops at the length of the array.
\<close>

definition trunc :: "rat \<Rightarrow> int" where
  "trunc r = (if 0 \<le> r then \<lfloor>r\<rfloor> else \<lceil>r\<rceil>)"

fun slice0 :: "'a list \<Rightarrow> jsnum \<Rightarrow> 'a list" where
  "slice0 xs NaN = []"
| "slice0 xs NegInf = []"
| "slice0 xs PosInf = xs"
| "slice0 xs (Fin r) =
     (if trunc r < 0 then take (nat (int (length xs) + trunc r)) xs else take (nat (trunc r)) xs)"

definition applyQuery :: "js_builtins \<Rightarrow> query_builder \<Rightarrow> props list \<Rightarrow> props list" where
  "applyQuery B q data =
     (let result = filter (matches B q) data;
          result = (if length (orderByConditions q) > 0
                    then ArraySort B (compare_records B (orderByConditions q)) result
                    else result)
      in case limitValue q of
           None \<Rightarrow> result
         | Some l \<Rightarrow> if num_less l (Fin 0) = Some False then slice0 result l else result)"


section \<open>Column definition builders\<close>

text \<open>
  \<open>interface ColumnDefinition\<close>: the type and four optional flags; \<open>None\<close> is an absent
  property. A flag counts where the source tests it (\<open>if (definition._isPrimaryKey)\<close>) when
  it is present and true.
\<close>

datatype BaseColumnType = STRING | NUMBER | BOOLEAN | DATE | OBJECT | ARRAY

record ColumnDefinition =
  col_type :: BaseColumnType
  isPrimaryKey :: "bool option"
  isAutoIncrement :: "bool option"
  isNullable :: "bool option"
  isUnique :: "bool option"

definition truthy :: "bool option \<Rightarrow> bool" where
  "truthy f = (f = Some True)"

text \<open>
  Every \<open>new Error(...)\<close> of the source, named after its message, the \<open>TypeError\<close> of
  reading a property of \<open>undefined\<close>, a \<open>DOMException\<close> of the backend by its name, and
  the rejection with \<open>null\<close> that \<open>reject(transaction.error)\<close> makes when the transaction
  has no error.
\<close>

datatype error =
    ErrNotOpen
  | ErrMultiplePrimaryKeys string
  | ErrAutoIncrementNotNumber string string
  | ErrNoPrimaryKey string
  | ErrPrimaryKeyNotFound string
  | ErrAutoIncrementBeforePrimaryKey
  | ErrAutoIncrementOnlyNumber
  | TypeError
  | DOMException string
  | NullReason

text \<open>The two classes of the specification's taxonomy that the claims name.\<close>

fun is_InvalidSchema :: "error \<Rightarrow> bool" where
  "is_InvalidSchema (ErrMultiplePrimaryKeys _) = True"
| "is_InvalidSchema (ErrAutoIncrementNotNumber _ _) = True"
| "is_InvalidSchema (ErrNoPrimaryKey _) = True"
| "is_InvalidSchema ErrAutoIncrementBeforePrimaryKey = True"
| "is_InvalidSchema ErrAutoIncrementOnlyNumber = True"
| "is_InvalidSchema _ = False"

fun is_NotOpen :: "error \<Rightarrow> bool" where
  "is_NotOpen ErrNotOpen = True"
| "is_NotOpen _ = False"

text \<open>
  A builder holds a reference to its definition object and never replaces it; the objects
  live in a heap, a list indexed by reference. Each chainable operation mutates the object
  in place and returns the builder itself, so the model returns the heap. The two
  \<open>console.warn\<close> calls have no effect on any value and are left out.
\<close>

type_synonym heap = "ColumnDefinition list"

record builder =
  definition_ref :: ref

definition new_builder :: "BaseColumnType \<Rightarrow> heap \<Rightarrow> builder \<times> heap" where
  "new_builder t h =
     (\<lparr>definition_ref = length h\<rparr>,
      h @ [\<lparr>col_type = t, isPrimaryKey = None, isAutoIncrement = None,
            isNullable = None, isUnique = None\<rparr>])"

definition deref :: "heap \<Rightarrow> ref \<Rightarrow> ColumnDefinition" where
  "deref h r = h ! r"

definition mutate :: "ref \<Rightarrow> (ColumnDefinition \<Rightarrow> ColumnDefinition) \<Rightarrow> heap \<Rightarrow> heap" where
  "mutate r f h = h[r := f (h ! r)]"

definition primaryKey :: "builder \<Rightarrow> heap \<Rightarrow> heap" where
  "primaryKey b h = mutate (definition_ref b) (\<lambda>d. d\<lparr>isPrimaryKey := Some True\<rparr>) h"

definition autoIncrement :: "builder \<Rightarrow> heap \<Rightarrow> error + heap" where
  "autoIncrement b h =
     (if \<not> truthy (isPrimaryKey (deref h (definition_ref b))) then
        Inl ErrAutoIncrementBeforePrimaryKey
      else if col_type (deref h (definition_ref b)) \<noteq> NUMBER then
        Inl ErrAutoIncrementOnlyNumber
      else Inr (mutate (definition_ref b) (\<lambda>d. d\<lparr>isAutoIncrement := Some True\<rparr>) h))"

definition nullable :: "bool \<Rightarrow> builder \<Rightarrow> heap \<Rightarrow> heap" where
  "nullable flag b h =
     (if flag then mutate (definition_ref b) (\<lambda>d. d\<lparr>isNullable := Some True\<rparr>) h
      else mutate (definition_ref b) (\<lambda>d. d\<lparr>isNullable := None\<rparr>) h)"

definition unique_col :: "bool \<Rightarrow> builder \<Rightarrow> heap \<Rightarrow> heap" where
  "unique_col flag b h =
     (if truthy (isPrimaryKey (deref h (definition_ref b))) \<and> flag then
        (if \<not> truthy (isPrimaryKey (deref h (definition_ref b))) then
           mutate (definition_ref b) (\<lambda>d. d\<lparr>isUnique := Some flag\<rparr>) h
         else if \<not> flag then mutate (definition_ref b) (\<lambda>d. d\<lparr>isUnique := None\<rparr>) h
         else h)
      else mutate (definition_ref b) (\<lambda>d. d\<lparr>isUnique := Some flag\<rparr>) h)"

text \<open>\<open>build()\<close> is \<open>return this.definition\<close>: the reference itself, the heap untouched.\<close>

definition build :: "builder \<Rightarrow> heap \<Rightarrow> ref \<times> heap" where
  "build b h = (definition_ref b, h)"

datatype builder_op = PrimaryKey | AutoIncrement | Nullable bool | Unique bool

fun apply_op :: "builder_op \<Rightarrow> builder \<Rightarrow> heap \<Rightarrow> error + heap" where
  "apply_op PrimaryKey b h = Inr (primaryKey b h)"
| "apply_op AutoIncrement b h = autoIncrement b h"
| "apply_op (Nullable flag) b h = Inr (nullable flag b h)"
| "apply_op (Unique flag) b h = Inr (unique_col flag b h)"

text \<open>What each operation does to a definition object, when it does not throw.\<close>

fun op_effect :: "builder_op \<Rightarrow> ColumnDefinition \<Rightarrow> ColumnDefinition" where
  "op_effect PrimaryKey d = d\<lparr>isPrimaryKey := Some True\<rparr>"
| "op_effect AutoIncrement d = d\<lparr>isAutoIncrement := Some True\<rparr>"
| "op_effect (Nullable flag) d = d\<lparr>isNullable := (if flag then Some True else None)\<rparr>"
| "op_effect (Unique flag) d =
     (if truthy (isPrimaryKey d) \<and> flag then d else d\<lparr>isUnique := Some flag\<rparr>)"


section \<open>The storage backend\<close>

text \<open>
  The backend is IndexedDB, outside the repository; the engine uses it through
  \<open>createObjectStore\<close>, \<open>createIndex\<close>, \<open>getAll\<close>, \<open>add\<close>, \<open>put\<close> and \<open>delete\<close>.
  An object store has in-line keys: the key of a row is the value of its key path, and two
  keys are the same when they have the same type and value, whatever object carries them.
  Rows are kept in arrival order; the order in which \<open>getAll\<close> lists them is the backend's
  and nothing below depends on it. Column names are taken to be identifiers, so that the
  backend accepts one as a key path and a key path names one property of a row; a request
  fails only for the reasons written out here.
\<close>

datatype idb_key = KNum jsnum | KDate jsnum | KStr string | KArr "idb_key list"

fun key_of :: "jsval \<Rightarrow> idb_key option" where
  "key_of (VNum n) = (if n = NaN then None else Some (KNum n))"
| "key_of (VDate r t) = (if t = NaN then None else Some (KDate t))"
| "key_of (VStr s) = Some (KStr s)"
| "key_of (VArr r xs) = map_option KArr (those (map key_of xs))"
| "key_of _ = None"

record index_def =
  idx_name :: string
  idx_keyPath :: string
  idx_unique :: bool

record object_store =
  keyPath :: string
  autoIncrementing :: bool
  indexes :: "index_def list"
  rows :: "props list"
  key_generator :: nat

type_synonym database = "(string \<times> object_store) list"

record backend =
  stored_version :: nat
  stores :: database

definition be_getAll :: "object_store \<Rightarrow> (error + props list) \<times> object_store" where
  "be_getAll os = (Inr (rows os), os)"

definition be_delete :: "jsval \<Rightarrow> object_store \<Rightarrow> (error + unit) \<times> object_store" where
  "be_delete key os =
     (case key_of key of
        None \<Rightarrow> (Inl (DOMException ''DataError''), os)
      | Some k \<Rightarrow>
          (Inr (), os\<lparr>rows := filter (\<lambda>r. key_of (get_prop r (keyPath os)) \<noteq> Some k) (rows os)\<rparr>))"

text \<open>
  The key of a row to store: the value at the key path, or the next number of the key
  generator when that value is missing and the store auto-increments (the number is then
  written into the row). An explicit number at or above the generator moves the generator
  past it.
\<close>

definition assign_key :: "object_store \<Rightarrow> props \<Rightarrow> error + (jsval \<times> props \<times> nat)" where
  "assign_key os r =
     (let v = get_prop r (keyPath os); g = key_generator os in
      if v = VUndefined then
        (if autoIncrementing os
         then Inr (VNum (Fin (of_nat g)), set_prop (keyPath os) (VNum (Fin (of_nat g))) r, g + 1)
         else Inl (DOMException ''DataError''))
      else (case key_of v of
              None \<Rightarrow> Inl (DOMException ''DataError'')
            | Some (KNum (Fin q)) \<Rightarrow>
                Inr (v, r, if autoIncrementing os \<and> of_nat g \<le> q then nat \<lfloor>q\<rfloor> + 1 else g)
            | Some _ \<Rightarrow> Inr (v, r, g)))"

definition violates_unique :: "object_store \<Rightarrow> jsval \<Rightarrow> props \<Rightarrow> bool" where
  "violates_unique os key r =
     list_ex (\<lambda>ix. idx_unique ix \<and>
        (case key_of (get_prop r (idx_keyPath ix)) of
           None \<Rightarrow> False
         | Some v \<Rightarrow>
             list_ex (\<lambda>r'. key_of (get_prop r' (keyPath os)) \<noteq> key_of key
                          \<and> key_of (get_prop r' (idx_keyPath ix)) = Some v) (rows os)))
       (indexes os)"

definition be_add :: "props \<Rightarrow> object_store \<Rightarrow> (error + jsval) \<times> object_store" where
  "be_add r os =
     (case assign_key os r of
        Inl e \<Rightarrow> (Inl e, os)
      | Inr (key, r', g) \<Rightarrow>
          if list_ex (\<lambda>x. key_of (get_prop x (keyPath os)) = key_of key) (rows os)
             \<or> violates_unique os key r'
          then (Inl (DOMException ''ConstraintError''), os)
          else (Inr key, os\<lparr>rows := rows os @ [r'], key_generator := g\<rparr>))"

definition be_put :: "props \<Rightarrow> object_store \<Rightarrow> (error + jsval) \<times> object_store" where
  "be_put r os =
     (case assign_key os r of
        Inl e \<Rightarrow> (Inl e, os)
      | Inr (key, r', g) \<Rightarrow>
          if violates_unique os key r' then (Inl (DOMException ''ConstraintError''), os)
          else if list_ex (\<lambda>x. key_of (get_prop x (keyPath os)) = key_of key) (rows os)
          then (Inr key,
                os\<lparr>rows := map (\<lambda>x. if key_of (get_prop x (keyPath os)) = key_of key then r' else x)
                               (rows os),
                   key_generator := g\<rparr>)
          else (Inr key, os\<lparr>rows := rows os @ [r'], key_generator := g\<rparr>))"

section \<open>The transaction gateway\<close>

text \<open>
  A promise settles once: \<open>resolve\<close> and \<open>reject\<close> do nothing to a settled promise.
\<close>

datatype 'a promise = Pending | Resolved 'a | Rejected error

fun resolve :: "'a \<Rightarrow> 'a promise \<Rightarrow> 'a promise" where
  "resolve v Pending = Resolved v"
| "resolve v p = p"

fun reject :: "error \<Rightarrow> 'a promise \<Rightarrow> 'a promise" where
  "reject e Pending = Rejected e"
| "reject e p = p"

text \<open>
  The events the backend delivers to the four handlers that \<open>transaction\<close> installs. An
  abort or an error of the transaction carries \<open>transaction.error\<close>, which may be null.
\<close>

datatype 'r tx_event =
    RequestSuccess 'r
  | RequestError error
  | TransactionAbort "error option"
  | TransactionError "error option"

fun handle_event :: "'r tx_event \<Rightarrow> 'r promise \<Rightarrow> 'r promise" where
  "handle_event (RequestSuccess r) p = resolve r p"
| "handle_event (RequestError e) p = reject e p"
| "handle_event (TransactionAbort te) p =
     reject (case te of Some e \<Rightarrow> e | None \<Rightarrow> DOMException ''AbortError'') p"
| "handle_event (TransactionError te) p =
     reject (case te of Some e \<Rightarrow> e | None \<Rightarrow> NullReason) p"

text \<open>
  What happens inside the promise executor once a connection exists: opening the transaction
  throws, the task throws, the task returns a promise (whose settlement is forwarded, and no
  handler is installed), or the task returns a request and the events arrive in some order.
\<close>

datatype 'r tx_run =
    TxOpenThrows error
  | TaskThrows error
  | TaskPromise "'r promise"
  | TaskRequest "'r tx_event list"

definition transaction :: "bool \<Rightarrow> 'r tx_run \<Rightarrow> 'r promise" where
  "transaction has_db run =
     (if \<not> has_db then Rejected ErrNotOpen
      else case run of
             TxOpenThrows e \<Rightarrow> Rejected e
           | TaskThrows e \<Rightarrow> Rejected e
           | TaskPromise p \<Rightarrow> p
           | TaskRequest evs \<Rightarrow> fold handle_event evs Pending)"

fun is_rejected :: "'a promise \<Rightarrow> bool" where
  "is_rejected (Rejected _) = True"
| "is_rejected _ = False"


section \<open>The database engine\<close>

type_synonym columns = "(string \<times> ColumnDefinition) list"

type_synonym schema = "(string \<times> columns) list"

text \<open>
  Step 1 of \<open>open\<close>: every builder of the fluent schema is replaced by what \<open>build()\<close>
  returns, read here at the time of the call.
\<close>

definition parse_schema :: "heap \<Rightarrow> (string \<times> (string \<times> builder) list) list \<Rightarrow> schema" where
  "parse_schema h fluentSchema =
     map (\<lambda>(storeName, cols).
            (storeName, map (\<lambda>(colName, b). (colName, deref h (fst (build b h)))) cols))
         fluentSchema"

text \<open>
  \<open>class IDB\<close>. \<open>db_conn\<close> says whether \<open>this._db\<close> holds a connection; \<open>tables\<close>
  maps a store name to its operation set, which is bound to the store's columns, and starts
  as the empty object.
\<close>

record IDB =
  db_conn :: bool
  dbName :: string
  version :: nat
  schemaDefinition :: "schema option"
  readyPromise :: "unit promise"
  tables :: "(string \<times> columns) list"

definition constructor_IDB :: "string \<Rightarrow> nat \<Rightarrow> IDB" where
  "constructor_IDB name ver =
     \<lparr>db_conn = False, dbName = name, version = ver, schemaDefinition = None,
      readyPromise = Pending, tables = []\<rparr>"

text \<open>
  The first \<open>forEach\<close> of \<open>createObjectStore\<close>, with its two locals. \<open>if (primaryKeyPath)\<close>
  tests a string or \<open>undefined\<close>, so it fails for the empty string too.
\<close>

definition truthy_str :: "string option \<Rightarrow> bool" where
  "truthy_str s = (case s of None \<Rightarrow> False | Some x \<Rightarrow> x \<noteq> [])"

fun find_primary_key ::
  "string \<Rightarrow> columns \<Rightarrow> string option \<Rightarrow> bool \<Rightarrow> error + (string option \<times> bool)" where
  "find_primary_key storeName [] primaryKeyPath autoIncrementFlag =
     Inr (primaryKeyPath, autoIncrementFlag)"
| "find_primary_key storeName ((columnName, d) # cols) primaryKeyPath autoIncrementFlag =
     (if truthy (isPrimaryKey d) then
        (if truthy_str primaryKeyPath then Inl (ErrMultiplePrimaryKeys storeName)
         else if truthy (isAutoIncrement d) then
           (if col_type d \<noteq> NUMBER then Inl (ErrAutoIncrementNotNumber columnName storeName)
            else find_primary_key storeName cols (Some columnName) True)
         else find_primary_key storeName cols (Some columnName) autoIncrementFlag)
      else find_primary_key storeName cols primaryKeyPath autoIncrementFlag)"

text \<open>The second \<open>forEach\<close>: a unique index for every unique column that is not the key.\<close>

fun create_indexes :: "string \<Rightarrow> columns \<Rightarrow> index_def list \<Rightarrow> index_def list" where
  "create_indexes primaryKeyPath [] ixs = ixs"
| "create_indexes primaryKeyPath ((columnName, d) # cols) ixs =
     (if truthy (isUnique d) \<and> columnName \<noteq> primaryKeyPath then
        (if list_ex (\<lambda>i. idx_name i = columnName @ ''_unique_idx'') ixs
         then create_indexes primaryKeyPath cols ixs
         else create_indexes primaryKeyPath cols
                (ixs @ [\<lparr>idx_name = columnName @ ''_unique_idx'', idx_keyPath = columnName,
                         idx_unique = True\<rparr>]))
      else create_indexes primaryKeyPath cols ixs)"

definition createObjectStore :: "string \<Rightarrow> columns \<Rightarrow> database \<Rightarrow> error + database" where
  "createObjectStore storeName cols db =
     (if map_of db storeName \<noteq> None then Inr db
      else case find_primary_key storeName cols None False of
             Inl e \<Rightarrow> Inl e
           | Inr (primaryKeyPath, autoIncrementFlag) \<Rightarrow>
               (case primaryKeyPath of
                  None \<Rightarrow> Inl (ErrNoPrimaryKey storeName)
                | Some pk \<Rightarrow>
                    if pk = [] then Inl (ErrNoPrimaryKey storeName)
                    else Inr (db @ [(storeName,
                           \<lparr>keyPath = pk, autoIncrementing = autoIncrementFlag,
                            indexes = create_indexes pk cols [], rows = [],
                            key_generator = 1\<rparr>)])))"

text \<open>
  The \<open>forEach\<close> over the stores in \<open>onupgradeneeded\<close>: it stops at the first store that
  throws, with the stores created so far in the database of the upgrade transaction.
\<close>

fun create_stores :: "schema \<Rightarrow> database \<Rightarrow> database \<times> error option" where
  "create_stores [] db = (db, None)"
| "create_stores ((storeName, cols) # rest) db =
     (case createObjectStore storeName cols db of
        Inl e \<Rightarrow> (db, Some e)
      | Inr db' \<Rightarrow> create_stores rest db')"

text \<open>
  The three handlers of the open request. \<open>onupgradeneeded\<close> returns the engine, the
  database as the handler leaves it, and the error it rethrows, if any.
\<close>

definition onupgradeneeded :: "IDB \<Rightarrow> database \<Rightarrow> IDB \<times> database \<times> error option" where
  "onupgradeneeded eng db =
     (let eng1 = eng\<lparr>db_conn := True\<rparr> in
      case schemaDefinition eng1 of
        None \<Rightarrow> (eng1\<lparr>readyPromise := reject TypeError (readyPromise eng1)\<rparr>, db, Some TypeError)
      | Some sd \<Rightarrow>
          (case create_stores sd db of
             (db', None) \<Rightarrow> (eng1, db', None)
           | (db', Some err) \<Rightarrow>
               (eng1\<lparr>readyPromise := reject err (readyPromise eng1)\<rparr>, db', Some err)))"

definition initializeTableMethods :: "schema \<Rightarrow> IDB \<Rightarrow> IDB" where
  "initializeTableMethods processedSchema eng =
     eng\<lparr>tables := fold (\<lambda>(storeName, cols). set_prop storeName cols) processedSchema (tables eng)\<rparr>"

definition onsuccess :: "IDB \<Rightarrow> IDB" where
  "onsuccess eng =
     (let eng1 = eng\<lparr>db_conn := True\<rparr> in
      case schemaDefinition eng1 of
        None \<Rightarrow> eng1\<lparr>readyPromise := reject TypeError (readyPromise eng1)\<rparr>
      | Some sd \<Rightarrow>
          (let eng2 = initializeTableMethods sd eng1
           in eng2\<lparr>readyPromise := resolve () (readyPromise eng2)\<rparr>))"

definition onerror :: "error \<Rightarrow> IDB \<Rightarrow> IDB" where
  "onerror err eng = eng\<lparr>readyPromise := reject err (readyPromise eng)\<rparr>"

text \<open>
  The backend's side of \<open>indexedDB.open(name, version)\<close>: version 0 is refused at the call,
  a version below the stored one fails the request, a version above it runs the upgrade
  handler inside a version-change transaction, and the request then succeeds. An exception
  that leaves the upgrade handler aborts that transaction: the stores it created are
  discarded and the request fails with an \<open>AbortError\<close>. The result lists the engine after
  each handler, and the backend at the end.
\<close>

definition indexedDB_open :: "IDB \<Rightarrow> backend \<Rightarrow> IDB list \<times> backend" where
  "indexedDB_open eng be =
     (if version eng = 0 then ([], be)
      else if version eng < stored_version be then
        ([onerror (DOMException ''VersionError'') eng], be)
      else if stored_version be < version eng then
        (case onupgradeneeded eng (stores be) of
           (eng1, db1, Some err) \<Rightarrow> ([eng1, onerror (DOMException ''AbortError'') eng1], be)
         | (eng1, db1, None) \<Rightarrow>
             ([eng1, onsuccess eng1], \<lparr>stored_version = version eng, stores = db1\<rparr>))
      else ([onsuccess eng], be))"

text \<open>
  \<open>open\<close> on a parsed schema: the engine before the call, after the synchronous part, and
  after each handler; the last one is the engine once the request is over.
\<close>

definition open_IDB :: "schema \<Rightarrow> IDB \<Rightarrow> backend \<Rightarrow> IDB list \<times> backend" where
  "open_IDB parsedSchema eng be =
     (let eng0 = eng\<lparr>schemaDefinition := Some parsedSchema\<rparr>
      in case indexedDB_open eng0 be of (tr, be') \<Rightarrow> (eng # eng0 # tr, be'))"

text \<open>
  Several calls of \<open>open\<close> on one handle, one after the other, each with the schema it is
  given and the backend as it is at that time: the states the handle goes through.
\<close>

fun open_many :: "(schema \<times> backend) list \<Rightarrow> IDB \<Rightarrow> IDB list" where
  "open_many [] eng = [eng]"
| "open_many ((parsedSchema, be) # rest) eng =
     fst (open_IDB parsedSchema eng be)
     @ open_many rest (last (fst (open_IDB parsedSchema eng be)))"

section \<open>The operations of a store\<close>

text \<open>
  One call of \<open>transaction\<close> against the backend: the backend performs the request on the
  store and reports success or failure; a failed request leaves the store as it was and its
  error reaches the transaction, which aborts.
\<close>

definition backend_events :: "error + 'r \<Rightarrow> 'r tx_event list" where
  "backend_events res =
     (case res of
        Inr r \<Rightarrow> [RequestSuccess r]
      | Inl e \<Rightarrow> [RequestError e, TransactionError (Some e), TransactionAbort (Some e)])"

definition run_tx ::
  "IDB \<Rightarrow> database \<Rightarrow> string \<Rightarrow> (object_store \<Rightarrow> (error + 'r) \<times> object_store)
   \<Rightarrow> 'r promise \<times> database" where
  "run_tx eng db storeName task =
     (if \<not> db_conn eng then (transaction False (TaskRequest []), db)
      else case map_of db storeName of
             None \<Rightarrow> (transaction True (TxOpenThrows (DOMException ''NotFoundError'')), db)
           | Some os \<Rightarrow>
               (case task os of
                  (res, os') \<Rightarrow>
                    (transaction True (TaskRequest (backend_events res)),
                     set_prop storeName os' db)))"

definition getAllRecords :: "IDB \<Rightarrow> database \<Rightarrow> string \<Rightarrow> props list promise \<times> database" where
  "getAllRecords eng db storeName = run_tx eng db storeName be_getAll"

definition insert_rec :: "IDB \<Rightarrow> database \<Rightarrow> string \<Rightarrow> props \<Rightarrow> jsval promise \<times> database" where
  "insert_rec eng db storeName args = run_tx eng db storeName (be_add args)"

fun getPrimaryKeyPath :: "columns \<Rightarrow> string option" where
  "getPrimaryKeyPath [] = None"
| "getPrimaryKeyPath ((colName, d) # rest) =
     (if truthy (isPrimaryKey d) then Some colName else getPrimaryKeyPath rest)"

fun isValidKey :: "jsval \<Rightarrow> bool" where
  "isValidKey (VStr _) = True"
| "isValidKey (VNum _) = True"
| "isValidKey (VDate _ _) = True"
| "isValidKey (VArr _ xs) = list_all isValidKey xs"
| "isValidKey _ = False"

text \<open>\<open>Promise.all\<close>, awaited for its settlement only: the values are dropped.\<close>

fun void :: "'a promise \<Rightarrow> unit promise" where
  "void Pending = Pending"
| "void (Resolved _) = Resolved ()"
| "void (Rejected e) = Rejected e"

definition promise_all :: "unit promise list \<Rightarrow> unit promise" where
  "promise_all ps =
     (case find is_rejected ps of
        Some p \<Rightarrow> p
      | None \<Rightarrow> if Pending \<in> set ps then Pending else Resolved ())"

fun delete_each ::
  "IDB \<Rightarrow> string \<Rightarrow> string \<Rightarrow> props list \<Rightarrow> database \<Rightarrow> unit promise list \<times> database" where
  "delete_each eng storeName primaryKeyPath [] db = ([], db)"
| "delete_each eng storeName primaryKeyPath (r # rest) db =
     (case (if isValidKey (read_prop r primaryKeyPath)
            then run_tx eng db storeName (be_delete (read_prop r primaryKeyPath))
            else (Resolved (), db)) of
        (p, db1) \<Rightarrow>
          (case delete_each eng storeName primaryKeyPath rest db1 of
             (ps, db2) \<Rightarrow> (void p # ps, db2)))"

definition executeDelete ::
  "js_builtins \<Rightarrow> IDB \<Rightarrow> database \<Rightarrow> string \<Rightarrow> columns \<Rightarrow> query_builder
   \<Rightarrow> unit promise \<times> database" where
  "executeDelete B eng db storeName storeSchema bld =
     (case getAllRecords eng db storeName of
        (Pending, db1) \<Rightarrow> (Pending, db1)
      | (Rejected e, db1) \<Rightarrow> (Rejected e, db1)
      | (Resolved allRecords, db1) \<Rightarrow>
          (let matchingRecords = applyQuery B bld allRecords in
           case getPrimaryKeyPath storeSchema of
             None \<Rightarrow> (Rejected (ErrPrimaryKeyNotFound storeName), db1)
           | Some primaryKeyPath \<Rightarrow>
               if primaryKeyPath = [] then (Rejected (ErrPrimaryKeyNotFound storeName), db1)
               else (case delete_each eng storeName primaryKeyPath matchingRecords db1 of
                       (promises, db2) \<Rightarrow> (promise_all promises, db2))))"

text \<open>
  The record that \<open>update\<close> hands to \<open>put\<close> for one match: the rest pattern drops the key
  from \<open>dataToSet\<close>, then the three spreads. \<open>now\<close> is the \<open>new Date()\<close> of that match.
\<close>

definition updatedRecord :: "string \<Rightarrow> props \<Rightarrow> jsval \<Rightarrow> props \<Rightarrow> props" where
  "updatedRecord primaryKeyPath dataToSet now r =
     (let safeDataToSet = filter (\<lambda>(k, v). k \<noteq> primaryKeyPath) dataToSet
      in spread (spread r safeDataToSet)
           (if \<not> has_prop dataToSet ''updatedAt'' then [(''updatedAt'', now)] else []))"

text \<open>
  The callback of \<open>matchingRecords.map\<close> in two steps: the records to write, one per match,
  then a \<open>put\<close> of each in a transaction of its own.
\<close>

definition updatedRecords :: "string \<Rightarrow> props \<Rightarrow> (nat \<Rightarrow> jsval) \<Rightarrow> props list \<Rightarrow> props list" where
  "updatedRecords primaryKeyPath dataToSet clock matchingRecords =
     map (\<lambda>(i, r). updatedRecord primaryKeyPath dataToSet (clock i) r)
       (enumerate 0 matchingRecords)"

fun put_each ::
  "IDB \<Rightarrow> string \<Rightarrow> props list \<Rightarrow> database \<Rightarrow> unit promise list \<times> database" where
  "put_each eng storeName [] db = ([], db)"
| "put_each eng storeName (w # ws) db =
     (case run_tx eng db storeName (be_put w) of
        (p, db1) \<Rightarrow>
          (case put_each eng storeName ws db1 of
             (ps, db2) \<Rightarrow> (void p # ps, db2)))"

definition executeUpdate ::
  "js_builtins \<Rightarrow> (nat \<Rightarrow> jsval) \<Rightarrow> IDB \<Rightarrow> database \<Rightarrow> string \<Rightarrow> columns \<Rightarrow> props \<Rightarrow> props
   \<Rightarrow> unit promise \<times> database" where
  "executeUpdate B clock eng db storeName storeSchema dataToSet conds =
     (let bld = where_q conds new_QueryBuilder in
      case getAllRecords eng db storeName of
        (Pending, db1) \<Rightarrow> (Pending, db1)
      | (Rejected e, db1) \<Rightarrow> (Rejected e, db1)
      | (Resolved allRecords, db1) \<Rightarrow>
          (let matchingRecords = applyQuery B bld allRecords in
           case getPrimaryKeyPath storeSchema of
             None \<Rightarrow> (Rejected (ErrPrimaryKeyNotFound storeName), db1)
           | Some primaryKeyPath \<Rightarrow>
               if primaryKeyPath = [] then (Rejected (ErrPrimaryKeyNotFound storeName), db1)
               else (case put_each eng storeName
                            (updatedRecords primaryKeyPath dataToSet clock matchingRecords)
                            db1 of
                       (promises, db2) \<Rightarrow> (promise_all promises, db2))))"

definition executeSelect ::
  "js_builtins \<Rightarrow> IDB \<Rightarrow> database \<Rightarrow> string \<Rightarrow> query_builder \<Rightarrow> props list promise \<times> database" where
  "executeSelect B eng db storeName bld =
     (case getAllRecords eng db storeName of
        (Resolved allRecords, db1) \<Rightarrow> (Resolved (applyQuery B bld allRecords), db1)
      | (p, db1) \<Rightarrow> (p, db1))"

text \<open>
  A call through the public surface, \<open>db.tables[storeName].op(...)\<close>, awaited. Reading a
  method of a store that \<open>tables\<close> does not hold throws a \<open>TypeError\<close> before anything
  runs. \<open>DeleteCall None\<close> awaits the object that \<open>delete()\<close> returns, \<open>DeleteCall (Some c)\<close>
  calls \<open>where(c)\<close> on it; \<open>SelectCall f\<close> applies the chain \<open>f\<close> of \<open>where\<close>,
  \<open>limit\<close> and \<open>orderBy\<close> calls to the fresh builder.
\<close>

datatype crud_call =
    InsertCall props
  | GetAllCall
  | SelectCall "query_builder \<Rightarrow> query_builder"
  | UpdateCall props props
  | DeleteCall "props option"

datatype crud_result =
    Key "jsval promise"
  | Rows "props list promise"
  | Done "unit promise"

datatype 'a outcome = Throws error | Returns 'a

definition tables_call ::
  "js_builtins \<Rightarrow> (nat \<Rightarrow> jsval) \<Rightarrow> IDB \<Rightarrow> database \<Rightarrow> string \<Rightarrow> crud_call
   \<Rightarrow> crud_result outcome \<times> database" where
  "tables_call B clock eng db storeName c =
     (case map_of (tables eng) storeName of
        None \<Rightarrow> (Throws TypeError, db)
      | Some storeSchema \<Rightarrow>
          (case c of
             InsertCall args \<Rightarrow>
               (case insert_rec eng db storeName args of (p, db') \<Rightarrow> (Returns (Key p), db'))
           | GetAllCall \<Rightarrow>
               (case getAllRecords eng db storeName of (p, db') \<Rightarrow> (Returns (Rows p), db'))
           | SelectCall f \<Rightarrow>
               (case executeSelect B eng db storeName (f new_QueryBuilder) of
                  (p, db') \<Rightarrow> (Returns (Rows p), db'))
           | UpdateCall dataToSet conds \<Rightarrow>
               (case executeUpdate B clock eng db storeName storeSchema dataToSet conds of
                  (p, db') \<Rightarrow> (Returns (Done p), db'))
           | DeleteCall None \<Rightarrow>
               (case executeDelete B eng db storeName storeSchema new_QueryBuilder of
                  (p, db') \<Rightarrow> (Returns (Done p), db'))
           | DeleteCall (Some conds) \<Rightarrow>
               (case executeDelete B eng db storeName storeSchema
                       (where_q conds new_QueryBuilder) of
                  (p, db') \<Rightarrow> (Returns (Done p), db'))))"


section \<open>Vocabulary of the specification\<close>

text \<open>
  The operator keys in the precedence the specification gives, when a key can decide (it is
  present and the source's guard on its operand and on the field value holds), and what it
  decides.
\<close>

definition operator_keys :: "string list" where
  "operator_keys =
     [''equals'', ''notEquals'', ''greaterThan'', ''greaterThanOrEqual'', ''lessThan'',
      ''lessThanOrEqual'', ''inArray'', ''isBetween'', ''contains'', ''looseContains'']"

definition key_applies :: "string \<Rightarrow> jsval \<Rightarrow> props \<Rightarrow> bool" where
  "key_applies k itemValue c =
     (has_prop c k \<and>
      (if k = ''inArray'' then is_array (get_prop c k)
       else if k = ''isBetween'' then
         is_array (get_prop c k) \<and> length (elems (get_prop c k)) = 2
       else if k = ''contains'' \<or> k = ''looseContains'' then
         is_string itemValue \<and> is_string (get_prop c k)
       else True))"

definition key_outcome :: "js_builtins \<Rightarrow> string \<Rightarrow> jsval \<Rightarrow> jsval \<Rightarrow> bool" where
  "key_outcome B k itemValue operand =
     (if k = ''equals'' then strict_eq itemValue operand
      else if k = ''notEquals'' then \<not> strict_eq itemValue operand
      else if k = ''greaterThan'' then
        itemValue \<noteq> VNull \<and> operand \<noteq> VNull \<and> js_gt B itemValue operand
      else if k = ''greaterThanOrEqual'' then
        itemValue \<noteq> VNull \<and> operand \<noteq> VNull \<and> js_ge B itemValue operand
      else if k = ''lessThan'' then
        itemValue \<noteq> VNull \<and> operand \<noteq> VNull \<and> js_lt B itemValue operand
      else if k = ''lessThanOrEqual'' then
        itemValue \<noteq> VNull \<and> operand \<noteq> VNull \<and> js_le B itemValue operand
      else if k = ''inArray'' then array_includes (elems operand) itemValue
      else if k = ''isBetween'' then
        itemValue \<noteq> VNull \<and> elems operand ! 0 \<noteq> VNull \<and> elems operand ! 1 \<noteq> VNull
        \<and> js_ge B itemValue (elems operand ! 0) \<and> js_le B itemValue (elems operand ! 1)
      else if k = ''contains'' then string_includes (str_of itemValue) (str_of operand)
      else if k = ''looseContains'' then
        string_includes (toLowerCase B (str_of itemValue)) (toLowerCase B (str_of operand))
      else False)"

definition first_match_wins :: "js_builtins \<Rightarrow> jsval \<Rightarrow> props \<Rightarrow> bool" where
  "first_match_wins B itemValue c =
     (case find (\<lambda>k. key_applies k itemValue c) operator_keys of
        None \<Rightarrow> False
      | Some k \<Rightarrow> key_outcome B k itemValue (get_prop c k))"




text \<open>The filtered and sorted list, before any limit.\<close>

definition filtered_sorted :: "js_builtins \<Rightarrow> query_builder \<Rightarrow> props list \<Rightarrow> props list" where
  "filtered_sorted B q data =
     (if orderByConditions q = [] then filter (matches B q) data
      else ArraySort B (compare_records B (orderByConditions q)) (filter (matches B q) data))"

text \<open>The number of primary-key columns of a store, and that none of them has the empty name.\<close>

definition pk_count :: "columns \<Rightarrow> nat" where
  "pk_count cols = length (filter (\<lambda>(c, d). truthy (isPrimaryKey d)) cols)"

definition pk_names_nonempty :: "columns \<Rightarrow> bool" where
  "pk_names_nonempty cols = list_all (\<lambda>(c, d). truthy (isPrimaryKey d) \<longrightarrow> c \<noteq> []) cols"

text \<open>
  An open request succeeds, that is the backend delivers its \<open>success\<close> event, when the
  version is not 0 and not below the stored one and, if the upgrade handler runs, it does
  not throw.
\<close>

definition request_succeeds :: "nat \<Rightarrow> schema \<Rightarrow> backend \<Rightarrow> bool" where
  "request_succeeds ver parsedSchema be =
     (ver \<noteq> 0 \<and> \<not> ver < stored_version be
      \<and> (stored_version be < ver \<longrightarrow> snd (create_stores parsedSchema (stores be)) = None))"

text \<open>
  What the backend keeps true of a store with in-line keys: every row has a key at the key
  path.
\<close>

definition store_wf :: "object_store \<Rightarrow> bool" where
  "store_wf os = list_all (\<lambda>r. key_of (get_prop r (keyPath os)) \<noteq> None) (rows os)"

text \<open>
  The records of a store that match the conditions of an update, in the order of the
  store, and the store after a \<open>put\<close> of each record of a list, in the order of the list.
\<close>

definition matched_records :: "js_builtins \<Rightarrow> props \<Rightarrow> object_store \<Rightarrow> props list" where
  "matched_records B conds os = filter (matches B (where_q conds new_QueryBuilder)) (rows os)"

definition put_all :: "props list \<Rightarrow> object_store \<Rightarrow> object_store" where
  "put_all ws os = fold (\<lambda>w os'. snd (be_put w os')) ws os"

text \<open>
  What ECMAScript promises of \<open>sort\<close>. A comparator is consistent on a list when, there, the
  sign of \<open>cmp b a\<close> is the opposite of that of \<open>cmp a b\<close> and \<open>cmp a b \<le> 0\<close> is
  transitive. For such a comparator \<open>sort\<close> returns the elements it was given, each as often
  as it was given, in the order of the comparator; for any other the order is the
  implementation's. The comparator of the query builder is consistent when every ordering
  column is typed: each record holds there null, or a value of one kind, the same kind for
  all records (a number other than NaN, a boolean or a valid date; or a string). A record
  that lacks the column reads \<open>undefined\<close> there and makes the column untyped.
\<close>

definition consistent_comparator :: "('a \<Rightarrow> 'a \<Rightarrow> int) \<Rightarrow> 'a list \<Rightarrow> bool" where
  "consistent_comparator cmp xs =
     list_all (\<lambda>a. list_all (\<lambda>b.
        (cmp a b < 0) = (0 < cmp b a)
        \<and> list_all (\<lambda>c. cmp a b \<le> 0 \<and> cmp b c \<le> 0 \<longrightarrow> cmp a c \<le> 0) xs) xs) xs"

definition conforming_sort ::
  "(('a \<Rightarrow> 'a \<Rightarrow> int) \<Rightarrow> 'a list \<Rightarrow> 'a list) \<Rightarrow> bool" where
  "conforming_sort srt =
     (\<forall>cmp xs. consistent_comparator cmp xs \<longrightarrow>
        mset (srt cmp xs) = mset xs \<and> sorted_wrt (\<lambda>a b. cmp a b \<le> 0) (srt cmp xs))"

fun numeric_like :: "jsval \<Rightarrow> bool" where
  "numeric_like (VNum n) = (n \<noteq> NaN)"
| "numeric_like (VBool _) = True"
| "numeric_like (VDate _ t) = (t \<noteq> NaN)"
| "numeric_like _ = False"

definition column_typed :: "string \<Rightarrow> props list \<Rightarrow> bool" where
  "column_typed f recs =
     (list_all (\<lambda>r. read_prop r f = VNull \<or> numeric_like (read_prop r f)) recs
      \<or> list_all (\<lambda>r. read_prop r f = VNull \<or> is_string (read_prop r f)) recs)"

text \<open>
  A list of records is in the order of the ordering keys of a query when no record compares
  after a later one. The outcome of a three-way comparison in a linear order.
\<close>

definition in_key_order :: "js_builtins \<Rightarrow> query_builder \<Rightarrow> props list \<Rightarrow> bool" where
  "in_key_order B q recs =
     sorted_wrt (\<lambda>x y. compare_records B (orderByConditions q) x y \<le> 0) recs"

definition three_way :: "'a::linorder \<Rightarrow> 'a \<Rightarrow> int" where
  "three_way x y = (if x < y then - 1 else if y < x then 1 else 0)"

text \<open>
  Auxiliary notions for the proof: a comparator that behaves like a weak order on a set, and
  the keys that the comparator of one column orders typed values by, null below all others.
\<close>

definition weak_order_on :: "('a \<Rightarrow> 'a \<Rightarrow> int) \<Rightarrow> 'a set \<Rightarrow> bool" where
  "weak_order_on cf S =
     (\<forall>a\<in>S. \<forall>b\<in>S. \<forall>c\<in>S.
        (cf a b \<le> 0 \<and> cf b c \<le> 0 \<longrightarrow> cf a c \<le> 0)
        \<and> (cf a b < 0 \<and> cf b c \<le> 0 \<longrightarrow> cf a c < 0)
        \<and> (cf a b \<le> 0 \<and> cf b c < 0 \<longrightarrow> cf a c < 0))"

fun num_rank :: "jsnum \<Rightarrow> int \<times> rat" where
  "num_rank NaN = (2, 0)"
| "num_rank NegInf = (- 1, 0)"
| "num_rank (Fin r) = (0, r)"
| "num_rank PosInf = (1, 0)"

definition num_key :: "js_builtins \<Rightarrow> jsval \<Rightarrow> int \<times> rat" where
  "num_key B v = (if v = VNull then (- 2, 0) else num_rank (to_number B v))"

definition str_key :: "jsval \<Rightarrow> int \<times> string" where
  "str_key v = (if v = VNull then (0, []) else (1, str_of v))"

subsection \<open>Sample inputs\<close>

text \<open>
  A runtime for the examples: its sort is the insertion sort, and the conversions that no
  example reaches are constant.
\<close>

definition sample_builtins :: js_builtins where
  "sample_builtins =
     \<lparr>StringToNumber = (\<lambda>s. NaN), ObjectToString = (\<lambda>v. ''[object Object]''),
      toLowerCase = (\<lambda>s. s), ArraySort = sort_by\<rparr>"

definition plain_column :: "BaseColumnType \<Rightarrow> ColumnDefinition" where
  "plain_column t =
     \<lparr>col_type = t, isPrimaryKey = None, isAutoIncrement = None, isNullable = None,
      isUnique = None\<rparr>"

definition todo_row :: "rat \<Rightarrow> bool \<Rightarrow> props" where
  "todo_row n done =
     [(''id'', VNum (Fin n)), (''completed'', VBool done), (''updatedAt'', VNull)]"

text \<open>
  The todo schema of the application, a database that holds nothing yet, the engine and the
  database once the schema is opened on it, and a store with two rows.
\<close>

definition todo_columns :: columns where
  "todo_columns =
     [(''id'', (plain_column NUMBER)\<lparr>isPrimaryKey := Some True, isAutoIncrement := Some True\<rparr>),
      (''completed'', plain_column BOOLEAN),
      (''updatedAt'', (plain_column DATE)\<lparr>isNullable := Some True\<rparr>)]"

definition empty_backend :: backend where
  "empty_backend = \<lparr>stored_version = 0, stores = []\<rparr>"

definition todo_engine :: IDB where
  "todo_engine =
     last (fst (open_IDB [(''todos'', todo_columns)] (constructor_IDB ''app'' 1)
                  \<lparr>stored_version = 0, stores = []\<rparr>))"

definition todo_backend :: backend where
  "todo_backend =
     snd (open_IDB [(''todos'', todo_columns)] (constructor_IDB ''app'' 1) empty_backend)"

definition todo_store :: object_store where
  "todo_store =
     \<lparr>keyPath = ''id'', autoIncrementing = True, indexes = [],
      rows = [todo_row 1 False, todo_row 2 True], key_generator = 3\<rparr>"

text \<open>
  A schema without a primary key; two open requests with it, which fail in the upgrade
  handler and leave the database as it was; and a handle on which an open with the schema
  without a key is followed by an open with the todo schema.
\<close>

definition broken_columns :: columns where
  "broken_columns = [(''title'', plain_column STRING)]"

definition failing_requests :: "(schema \<times> backend) list" where
  "failing_requests =
     [([(''todos'', broken_columns)], empty_backend),
      ([(''todos'', broken_columns)], empty_backend)]"

definition reopened_engine :: IDB where
  "reopened_engine =
     last (open_many [([(''todos'', broken_columns)], empty_backend),
                      ([(''todos'', todo_columns)], empty_backend)]
             (constructor_IDB ''app'' 1))"

text \<open>
  A database whose store \<open>todos\<close> was created with the key path \<open>id\<close>, and the engine
  after a schema whose primary key is \<open>uuid\<close> is opened on it at a higher version.
\<close>

definition uuid_columns :: columns where
  "uuid_columns =
     [(''uuid'', (plain_column STRING)\<lparr>isPrimaryKey := Some True\<rparr>),
      (''completed'', plain_column BOOLEAN)]"

definition legacy_backend :: backend where
  "legacy_backend = \<lparr>stored_version = 1, stores = [(''todos'', todo_store)]\<rparr>"

definition legacy_engine :: IDB where
  "legacy_engine =
     last (fst (open_IDB [(''todos'', uuid_columns)] (constructor_IDB ''app'' 2) legacy_backend))"

text \<open>A store whose primary-key column is itself named \<open>updatedAt\<close>, with one row.\<close>

definition stamp_columns :: columns where
  "stamp_columns =
     [(''updatedAt'', (plain_column NUMBER)\<lparr>isPrimaryKey := Some True\<rparr>),
      (''title'', plain_column STRING)]"

definition stamp_engine :: IDB where
  "stamp_engine =
     last (fst (open_IDB [(''notes'', stamp_columns)] (constructor_IDB ''app'' 1)
                  empty_backend))"

definition stamp_store :: object_store where
  "stamp_store =
     \<lparr>keyPath = ''updatedAt'', autoIncrementing = False, indexes = [],
      rows = [[(''updatedAt'', VNum (Fin 1)), (''title'', VStr ''a'')]], key_generator = 1\<rparr>"

text \<open>
  Rows with an identifier and a last-modified value, for the ordering: three rows whose
  columns are typed, and three rows the second of which lacks \<open>updatedAt\<close>, each with a
  query that orders by \<open>updatedAt\<close> and then by \<open>id\<close>.
\<close>

definition dated_row :: "rat \<Rightarrow> jsval \<Rightarrow> props" where
  "dated_row n t = [(''id'', VNum (Fin n)), (''updatedAt'', t)]"

definition dated_rows :: "props list" where
  "dated_rows =
     [dated_row 1 (VDate 10 (Fin 5)), dated_row 2 VNull, dated_row 3 (VDate 11 (Fin 5))]"

definition dated_query :: query_builder where
  "dated_query = orderBy ''id'' Desc (orderBy ''updatedAt'' Asc new_QueryBuilder)"

definition cycle_rows :: "props list" where
  "cycle_rows =
     [dated_row 1 (VDate 10 (Fin 9)), [(''id'', VNum (Fin 2))], dated_row 3 (VDate 11 (Fin 5))]"

definition cycle_query :: query_builder where
  "cycle_query = orderBy ''id'' Asc (orderBy ''updatedAt'' Asc new_QueryBuilder)"

section \<open>Properties\<close>

subsection \<open>Objects and comparisons\<close>

lemma map_of_set_prop: "map_of (set_prop k v ps) = (map_of ps)(k \<mapsto> v)"
  by (induction ps) (auto simp: fun_eq_iff)

lemma map_of_spread: "map_of (spread t s) = map_of t ++ map_of (rev s)"
  unfolding spread_def
proof (induction s arbitrary: t)
  case Nil
  then show ?case by simp
next
  case (Cons a s)
  obtain k v where a: "a = (k, v)" by (cases a)
  show ?case using Cons[of "set_prop k v t"]
    by (auto simp: a map_of_set_prop fun_eq_iff map_add_def split: option.splits)
qed

lemma map_of_rev_distinct: "distinct (map fst s) \<Longrightarrow> map_of (rev s) = map_of s"
  by (subst map_of_inject_set) (simp_all add: rev_map[symmetric])

lemma map_of_filter_key:
  "map_of (filter (\<lambda>(k, v). k \<noteq> pk) d) k = (if k = pk then None else map_of d k)"
  by (induction d) auto




lemma matches_limitValue: "matches B (q\<lparr>limitValue := l\<rparr>) = matches B q"
  by (rule ext) (simp add: matches_def)

lemma read_prop_own: "has_prop r k \<Longrightarrow> read_prop r k = get_prop r k"
  by (auto simp: has_prop_def read_prop_def get_prop_def)


text \<open>
  None of the names that the source looks up with \<open>in\<close> or with a literal key is a property
  of \<open>Object.prototype\<close>.
\<close>

lemma literal_keys_not_inherited:
  "list_all (\<lambda>k. inherited k = None) (''updatedAt'' # operator_keys)"
  by (simp add: inherited_def object_prototype_def operator_keys_def)

lemma todo_engine_ready:
  "db_conn todo_engine \<and> tables todo_engine = [(''todos'', todo_columns)]
   \<and> readyPromise todo_engine = Resolved ()"
  by (simp add: todo_engine_def open_IDB_def indexedDB_open_def constructor_IDB_def
      onupgradeneeded_def createObjectStore_def todo_columns_def plain_column_def truthy_def
      truthy_str_def onsuccess_def initializeTableMethods_def Let_def)

subsection \<open>The transaction gateway settles once\<close>

lemma handle_event_settled: "p \<noteq> Pending \<Longrightarrow> handle_event ev p = p"
  by (cases ev; cases p) simp_all

lemma fold_handle_event_settled: "p \<noteq> Pending \<Longrightarrow> fold handle_event evs p = p"
  by (induction evs) (simp_all add: handle_event_settled)

text \<open>
  C1: when the surrounding transaction aborts or errors the gateway is to reject, even after
  the request has signalled success. At this input the request succeeds and the transaction
  then aborts at commit (the quota is exceeded). \<open>transaction.onabort\<close> runs and calls
  \<open>reject\<close> with the error of the transaction, which would reject a pending promise; but
  \<open>request.onsuccess\<close> has resolved the promise before, a promise settles once, and the
  gateway reports the key of a write that the backend has rolled back.
\<close>

theorem transaction_success_then_abort_resolves:
  "transaction True
     (TaskRequest [RequestSuccess (VNum (Fin 1)),
                   TransactionAbort (Some (DOMException ''QuotaExceededError''))])
     = Resolved (VNum (Fin 1))
   \<and> handle_event (TransactionAbort (Some (DOMException ''QuotaExceededError'')))
         (Pending :: jsval promise)
       = Rejected (DOMException ''QuotaExceededError'')"
  by (simp add: transaction_def)

subsection \<open>Opening with an invalid schema\<close>

lemma find_primary_key_error: "find_primary_key s cols pk ai = Inl e \<Longrightarrow> is_InvalidSchema e"
  by (induction s cols pk ai rule: find_primary_key.induct) (auto split: if_splits)

lemma createObjectStore_error: "createObjectStore s cols db = Inl e \<Longrightarrow> is_InvalidSchema e"
  by (auto simp: createObjectStore_def split: if_splits sum.splits option.splits prod.splits
      dest: find_primary_key_error)

lemma create_stores_error: "create_stores sch db = (db', Some e) \<Longrightarrow> is_InvalidSchema e"
  by (induction sch db rule: create_stores.induct)
     (auto split: sum.splits dest: createObjectStore_error)

lemma find_primary_key_none:
  "pk_count cols = 0 \<Longrightarrow> find_primary_key s cols pk ai = Inr (pk, ai)"
  by (induction s cols pk ai rule: find_primary_key.induct)
     (auto simp: pk_count_def split: if_splits)

lemma find_primary_key_many:
  "pk_names_nonempty cols \<Longrightarrow> (truthy_str pk \<and> 1 \<le> pk_count cols) \<or> 2 \<le> pk_count cols
   \<Longrightarrow> \<exists>e. find_primary_key s cols pk ai = Inl e"
proof (induction s cols pk ai rule: find_primary_key.induct)
  case (1 storeName primaryKeyPath autoIncrementFlag)
  then show ?case by (simp add: pk_count_def)
next
  case (2 storeName columnName d cols primaryKeyPath autoIncrementFlag)
  then show ?case
    by (auto simp: pk_count_def pk_names_nonempty_def truthy_str_def split: if_splits)
qed

lemma createObjectStore_bad:
  assumes "map_of db s = None" "pk_count cols = 0 \<or> 2 \<le> pk_count cols"
    "pk_names_nonempty cols"
  shows "\<exists>e. createObjectStore s cols db = Inl e"
proof (cases "pk_count cols = 0")
  case True
  then show ?thesis using assms(1) by (simp add: createObjectStore_def find_primary_key_none)
next
  case False
  with assms obtain e where "find_primary_key s cols None False = Inl e"
    using find_primary_key_many[of cols None s False] by auto
  then show ?thesis using assms(1) by (simp add: createObjectStore_def)
qed

lemma createObjectStore_other:
  "createObjectStore s' cols' db = Inr db' \<Longrightarrow> s \<noteq> s' \<Longrightarrow> map_of db' s = map_of db s"
  by (auto simp: createObjectStore_def map_add_def
      split: if_splits sum.splits option.splits prod.splits)

lemma create_stores_bad:
  assumes "distinct (map fst sch)" "(s, cols) \<in> set sch" "map_of db s = None"
    "pk_count cols = 0 \<or> 2 \<le> pk_count cols" "pk_names_nonempty cols"
  shows "\<exists>db' e. create_stores sch db = (db', Some e) \<and> map_of db' s = None"
  using assms
proof (induction sch arbitrary: db)
  case Nil
  then show ?case by simp
next
  case (Cons a sch)
  obtain s' cols' where a: "a = (s', cols')" by (cases a)
  show ?case
  proof (cases "createObjectStore s' cols' db")
    case (Inl e)
    then show ?thesis using Cons.prems(3) by (simp add: a)
  next
    case (Inr db1)
    have ne: "s' \<noteq> s"
    proof
      assume "s' = s"
      with Cons.prems(1,2) a have "cols' = cols" by (auto simp: image_iff)
      with \<open>s' = s\<close> Inr createObjectStore_bad[OF Cons.prems(3,4,5)] show False by simp
    qed
    with Cons.prems a have mem: "(s, cols) \<in> set sch" by auto
    have "map_of db1 s = None"
      using createObjectStore_other[OF Inr, of s] ne Cons.prems(3) by simp
    from Cons.IH[OF _ mem this Cons.prems(4,5)] Cons.prems(1) a Inr show ?thesis by simp
  qed
qed

text \<open>
  C2, as stated, fails: a store of the schema without any primary-key column, whose name the
  database already holds, is skipped by \<open>createObjectStore\<close> before its columns are looked
  at, so an upgrade from version 1 to version 2 goes through and \<open>open\<close> resolves.
\<close>

theorem open_existing_store_without_key_resolves:
  "pk_count [(''title'', plain_column STRING)] = 0
   \<and> readyPromise (last (fst (open_IDB [(''todos'', [(''title'', plain_column STRING)])]
        (constructor_IDB ''app'' 2)
        \<lparr>stored_version = 1,
         stores = [(''todos'', \<lparr>keyPath = ''id'', autoIncrementing = True, indexes = [],
                                rows = [], key_generator = 1\<rparr>)]\<rparr>)))
     = Resolved ()"
  by (simp add: pk_count_def plain_column_def truthy_def open_IDB_def indexedDB_open_def
      constructor_IDB_def onupgradeneeded_def createObjectStore_def onsuccess_def
      initializeTableMethods_def Let_def)

text \<open>
  C2, amended: when the upgrade path runs and some store of the schema that the database
  does not hold yet has zero primary-key columns, or two or more of them (none with the empty
  name), \<open>open\<close> rejects its readiness future with an InvalidSchema error; the exception
  leaves the upgrade handler, which has not created that store; the backend aborts the
  version-change transaction, so the database holds the stores it held before, and no
  operation set is synthesized.
\<close>

theorem open_invalid_schema_rejects:
  assumes "distinct (map fst sch)" and "(s, cols) \<in> set sch"
    and "map_of (stores be) s = None"
    and "pk_count cols = 0 \<or> 2 \<le> pk_count cols" and "pk_names_nonempty cols"
    and "stored_version be < ver"
  shows "(\<exists>e. readyPromise (last (fst (open_IDB sch (constructor_IDB name ver) be))) = Rejected e
              \<and> is_InvalidSchema e)
     \<and> (\<exists>eng1 db1 e. onupgradeneeded ((constructor_IDB name ver)\<lparr>schemaDefinition := Some sch\<rparr>)
                         (stores be) = (eng1, db1, Some e)
                     \<and> is_InvalidSchema e \<and> map_of db1 s = None)
     \<and> snd (open_IDB sch (constructor_IDB name ver) be) = be
     \<and> tables (last (fst (open_IDB sch (constructor_IDB name ver) be))) = []"
proof -
  obtain db' e where cs: "create_stores sch (stores be) = (db', Some e)"
    and ns: "map_of db' s = None"
    using create_stores_bad[OF assms(1-5)] by blast
  have inv: "is_InvalidSchema e" using cs by (rule create_stores_error)
  show ?thesis using assms(6) cs inv ns
    by (simp add: open_IDB_def indexedDB_open_def constructor_IDB_def onupgradeneeded_def
        onerror_def Let_def)
qed

theorem open_invalid_schema_rejects_witness:
  "(\<exists>e. readyPromise (last (fst (open_IDB [(''todos'', [(''title'', plain_column STRING)])]
           (constructor_IDB ''app'' 1) \<lparr>stored_version = 0, stores = []\<rparr>))) = Rejected e
        \<and> is_InvalidSchema e)
   \<and> snd (open_IDB [(''todos'', [(''title'', plain_column STRING)])]
           (constructor_IDB ''app'' 1) \<lparr>stored_version = 0, stores = []\<rparr>)
       = \<lparr>stored_version = 0, stores = []\<rparr>"
proof -
  have h1: "distinct (map fst [(''todos'', [(''title'', plain_column STRING)])])" by simp
  have h2: "(''todos'', [(''title'', plain_column STRING)])
            \<in> set [(''todos'', [(''title'', plain_column STRING)])]" by simp
  have h3: "map_of (stores \<lparr>stored_version = 0, stores = []\<rparr>) ''todos'' = None" by simp
  have h4: "pk_count [(''title'', plain_column STRING)] = 0
            \<or> 2 \<le> pk_count [(''title'', plain_column STRING)]"
    by (simp add: pk_count_def plain_column_def truthy_def)
  have h5: "pk_names_nonempty [(''title'', plain_column STRING)]"
    by (simp add: pk_names_nonempty_def)
  have h6: "stored_version \<lparr>stored_version = 0, stores = []\<rparr> < 1" by simp
  from open_invalid_schema_rejects[OF h1 h2 h3 h4 h5 h6, of "''app''"]
  show ?thesis by blast
qed

subsection \<open>Builders and the definitions they return\<close>

text \<open>
  C3, as stated, fails: \<open>build()\<close> hands out the builder's own definition object, so
  \<open>nullable()\<close> called afterwards changes the definition returned before.
\<close>

theorem build_returns_live_definition:
  "isNullable (deref (snd (build (fst (new_builder STRING [])) (snd (new_builder STRING []))))
       (fst (build (fst (new_builder STRING [])) (snd (new_builder STRING []))))) = None
   \<and> isNullable (deref (nullable True (fst (new_builder STRING [])) (snd (new_builder STRING [])))
       (fst (build (fst (new_builder STRING [])) (snd (new_builder STRING []))))) = Some True"
  by (simp add: new_builder_def build_def nullable_def mutate_def deref_def)

text \<open>
  C3, amended: \<open>build()\<close> changes nothing and returns the same definition object each time,
  so repeated calls are idempotent; that object is the builder's own, so a builder operation
  that succeeds after \<open>build()\<close> shows through the definition returned before (it reads as
  the operation's effect on it), and the definitions of other builders are untouched.
\<close>

theorem build_shares_builder_definition:
  assumes "definition_ref b < length h"
  shows "snd (build b h) = h \<and> build b (snd (build b h)) = build b h
    \<and> (\<forall>op h'. apply_op op b h = Inr h' \<longrightarrow>
          fst (build b h') = fst (build b h)
        \<and> deref h' (fst (build b h)) = op_effect op (deref h (fst (build b h)))
        \<and> (\<forall>r. r \<noteq> definition_ref b \<longrightarrow> deref h' r = deref h r))"
proof -
  have "fst (build b h') = fst (build b h)
        \<and> deref h' (fst (build b h)) = op_effect op (deref h (fst (build b h)))
        \<and> (\<forall>r. r \<noteq> definition_ref b \<longrightarrow> deref h' r = deref h r)"
    if "apply_op op b h = Inr h'" for op h'
    using that assms
    by (cases op) (auto simp: build_def deref_def mutate_def primaryKey_def autoIncrement_def
        nullable_def unique_col_def split: if_splits)
  then show ?thesis by (simp add: build_def)
qed

theorem build_shares_builder_definition_witness:
  "definition_ref \<lparr>definition_ref = 0\<rparr> < length [plain_column STRING]
   \<and> apply_op (Nullable True) \<lparr>definition_ref = 0\<rparr> [plain_column STRING]
       = Inr [plain_column STRING\<lparr>isNullable := Some True\<rparr>]
   \<and> isNullable (deref [plain_column STRING\<lparr>isNullable := Some True\<rparr>]
       (fst (build \<lparr>definition_ref = 0\<rparr> [plain_column STRING]))) = Some True"
proof -
  have h: "definition_ref \<lparr>definition_ref = 0\<rparr> < length [plain_column STRING]"
    by simp
  have a: "apply_op (Nullable True) \<lparr>definition_ref = 0\<rparr> [plain_column STRING]
       = Inr [plain_column STRING\<lparr>isNullable := Some True\<rparr>]"
    by (simp add: nullable_def mutate_def)
  from build_shares_builder_definition[OF h] a
  have "deref [plain_column STRING\<lparr>isNullable := Some True\<rparr>]
          (fst (build \<lparr>definition_ref = 0\<rparr> [plain_column STRING]))
        = op_effect (Nullable True)
            (deref [plain_column STRING] (fst (build \<lparr>definition_ref = 0\<rparr> [plain_column STRING])))"
    by blast
  then show ?thesis using h a by simp
qed

subsection \<open>Operator objects\<close>

text \<open>
  C6, as stated, fails: two operator objects with the same first present key, \<open>inArray\<close>,
  and the same operand for it are decided differently for the same field value, because the
  operand is not an array and the matcher goes on to \<open>isBetween\<close>.
\<close>

theorem later_operator_key_decides:
  "find (has_prop [(''inArray'', VUndefined),
                   (''isBetween'', VArr 1 [VNum (Fin 1), VNum (Fin 5)])]) operator_keys
     = Some ''inArray''
   \<and> find (has_prop [(''inArray'', VUndefined)]) operator_keys = Some ''inArray''
   \<and> match_condition sample_builtins (VNum (Fin 3))
        (VObj 0 [(''inArray'', VUndefined),
                 (''isBetween'', VArr 1 [VNum (Fin 1), VNum (Fin 5)])])
   \<and> \<not> match_condition sample_builtins (VNum (Fin 3)) (VObj 0 [(''inArray'', VUndefined)])"
  by (simp add: operator_keys_def has_prop_def get_prop_def js_ge_def js_le_def js_less_def
      sample_builtins_def)

text \<open>
  C6, amended: the matcher goes through the operator keys in the fixed precedence and the
  first key that applies decides. The six comparison keys apply as soon as they are present;
  \<open>inArray\<close> applies when its operand is an array, \<open>isBetween\<close> when its operand is an
  array of two elements, \<open>contains\<close> and \<open>looseContains\<close> when the field value and the
  operand are strings; a present key that does not apply is passed over. When no key
  applies, and so when the object has none of the keys, the condition is false.
\<close>

theorem match_condition_first_applicable_key:
  "match_condition B itemValue (VObj r c) = first_match_wins B itemValue c
   \<and> ((\<forall>k \<in> set operator_keys. \<not> has_prop c k) \<longrightarrow> \<not> match_condition B itemValue (VObj r c))"
  by (simp add: first_match_wins_def operator_keys_def key_applies_def key_outcome_def Let_def)

theorem match_condition_first_applicable_key_witness:
  "list_all (\<lambda>k. \<not> has_prop [(''between'', VNum (Fin 1))] k) operator_keys
   \<and> \<not> match_condition sample_builtins (VNum (Fin 1)) (VObj 0 [(''between'', VNum (Fin 1))])
   \<and> first_match_wins sample_builtins (VStr ''abc'')
        [(''contains'', VUndefined), (''looseContains'', VStr ''bc'')]
   \<and> match_condition sample_builtins (VStr ''abc'')
        (VObj 0 [(''contains'', VUndefined), (''looseContains'', VStr ''bc'')])"
proof -
  have hl: "list_all (\<lambda>k. \<not> has_prop [(''between'', VNum (Fin 1))] k) operator_keys"
    by (simp add: operator_keys_def has_prop_def)
  then have h: "\<forall>k \<in> set operator_keys. \<not> has_prop [(''between'', VNum (Fin 1))] k"
    by (simp only: list_all_iff)
  have f: "first_match_wins sample_builtins (VStr ''abc'')
        [(''contains'', VUndefined), (''looseContains'', VStr ''bc'')]"
    by (simp add: first_match_wins_def operator_keys_def key_applies_def key_outcome_def
        has_prop_def get_prop_def sample_builtins_def)
  have m1: "\<not> match_condition sample_builtins (VNum (Fin 1))
               (VObj 0 [(''between'', VNum (Fin 1))])"
    using match_condition_first_applicable_key
            [of sample_builtins "VNum (Fin 1)" 0 "[(''between'', VNum (Fin 1))]"] h
    by blast
  have m2: "match_condition sample_builtins (VStr ''abc'')
        (VObj 0 [(''contains'', VUndefined), (''looseContains'', VStr ''bc'')])"
    using match_condition_first_applicable_key
            [of sample_builtins "VStr ''abc''" 0
                "[(''contains'', VUndefined), (''looseContains'', VStr ''bc'')]"] f
    by blast
  from hl m1 f m2 show ?thesis by blast
qed


subsection \<open>The limit\<close>

text \<open>
  C10: a negative limit leaves the result uncapped, the whole filtered and sorted list;
  limit 0 gives the empty list; a positive limit \<open>n\<close> gives the first \<open>n\<close> records of
  that list, so at most \<open>n\<close> of them.
\<close>

theorem limit_negative_uncapped:
  "(n < 0 \<longrightarrow> applyQuery B (limit (Fin (of_int n)) q) data = filtered_sorted B q data)
   \<and> applyQuery B (limit (Fin 0) q) data = []
   \<and> (0 < n \<longrightarrow>
        applyQuery B (limit (Fin (of_int n)) q) data = take (nat n) (filtered_sorted B q data)
        \<and> int (length (applyQuery B (limit (Fin (of_int n)) q) data)) \<le> n)"
  by (auto simp: applyQuery_def limit_def trunc_def Let_def matches_limitValue
      filtered_sorted_def)

theorem limit_negative_uncapped_witness:
  "applyQuery sample_builtins (limit (Fin (of_int (- 1))) new_QueryBuilder)
       [todo_row 1 False, todo_row 2 True, todo_row 3 False]
     = [todo_row 1 False, todo_row 2 True, todo_row 3 False]
   \<and> applyQuery sample_builtins (limit (Fin (of_int 2)) new_QueryBuilder)
       [todo_row 1 False, todo_row 2 True, todo_row 3 False]
     = [todo_row 1 False, todo_row 2 True]"
proof -
  have f: "filtered_sorted sample_builtins new_QueryBuilder
             [todo_row 1 False, todo_row 2 True, todo_row 3 False]
           = [todo_row 1 False, todo_row 2 True, todo_row 3 False]"
    by (simp add: filtered_sorted_def new_QueryBuilder_def matches_def)
  from limit_negative_uncapped[of "- 1" sample_builtins new_QueryBuilder
         "[todo_row 1 False, todo_row 2 True, todo_row 3 False]"]
       limit_negative_uncapped[of 2 sample_builtins new_QueryBuilder
         "[todo_row 1 False, todo_row 2 True, todo_row 3 False]"]
  show ?thesis by (simp add: f)
qed

subsection \<open>Operations before the engine is ready\<close>

lemma request_succeeds_fresh:
  "request_succeeds ver sch be
   = (readyPromise (last (fst (open_IDB sch (constructor_IDB name ver) be))) = Resolved ())"
  by (auto simp: request_succeeds_def open_IDB_def indexedDB_open_def constructor_IDB_def
      onupgradeneeded_def onsuccess_def onerror_def initializeTableMethods_def Let_def
      split: prod.splits option.splits)

lemma open_IDB_first:
  assumes "e \<in> set (fst (open_IDB sch (constructor_IDB name ver) be))"
    and "readyPromise e \<noteq> Resolved ()"
  shows "tables e = []"
  using assms
  by (auto simp: open_IDB_def indexedDB_open_def constructor_IDB_def onupgradeneeded_def
      onsuccess_def onerror_def initializeTableMethods_def Let_def
      split: if_splits prod.splits option.splits)

lemma open_IDB_fails:
  assumes "\<not> request_succeeds (version eng) sch be" and "tables eng = []"
    and "readyPromise eng \<noteq> Resolved ()"
    and "e \<in> set (fst (open_IDB sch eng be))"
  shows "tables e = [] \<and> readyPromise e \<noteq> Resolved () \<and> version e = version eng"
  using assms
  by (cases "readyPromise eng")
     (auto simp: request_succeeds_def open_IDB_def indexedDB_open_def onupgradeneeded_def
      onsuccess_def onerror_def initializeTableMethods_def Let_def
      split: if_splits prod.splits option.splits)

lemma open_IDB_nonempty: "fst (open_IDB sch eng be) \<noteq> []"
  by (simp add: open_IDB_def Let_def split: prod.splits)

lemma open_IDB_butlast_nonempty: "butlast (fst (open_IDB sch eng be)) \<noteq> []"
  by (simp add: open_IDB_def Let_def split: prod.splits)

lemma open_many_nonempty: "open_many reqs eng \<noteq> []"
  by (cases reqs) (auto simp: open_IDB_nonempty)

lemma open_IDB_before_success:
  assumes "tables eng = []" and "e \<in> set (butlast (fst (open_IDB sch eng be)))"
  shows "tables e = []"
  using assms
  by (auto simp: open_IDB_def indexedDB_open_def onupgradeneeded_def onerror_def Let_def
      split: if_splits prod.splits option.splits)

lemma open_many_fails:
  assumes "list_all (\<lambda>(s, b). \<not> request_succeeds (version eng) s b) reqs"
    and "tables eng = []" and "readyPromise eng \<noteq> Resolved ()"
    and "e \<in> set (open_many reqs eng)"
  shows "tables e = [] \<and> readyPromise e \<noteq> Resolved ()"
  using assms
proof (induction reqs arbitrary: eng)
  case Nil
  then show ?case by simp
next
  case (Cons a reqs)
  obtain sch be where a: "a = (sch, be)" by (cases a)
  let ?tr = "fst (open_IDB sch eng be)"
  from Cons.prems(1) a have f: "\<not> request_succeeds (version eng) sch be" by simp
  have l: "last ?tr \<in> set ?tr" using open_IDB_nonempty by simp
  note inv = open_IDB_fails[OF f Cons.prems(2,3)]
  from Cons.prems(4) a have "e \<in> set ?tr \<or> e \<in> set (open_many reqs (last ?tr))" by simp
  then show ?case
  proof
    assume "e \<in> set ?tr"
    then show ?thesis using inv by blast
  next
    assume m: "e \<in> set (open_many reqs (last ?tr))"
    from inv[OF l] have t: "tables (last ?tr) = []" and r: "readyPromise (last ?tr) \<noteq> Resolved ()"
      and v: "version (last ?tr) = version eng" by simp_all
    from Cons.prems(1) a v
    have "list_all (\<lambda>(s, b). \<not> request_succeeds (version (last ?tr)) s b) reqs" by simp
    from Cons.IH[OF this t r m] show ?thesis .
  qed
qed

text \<open>
  C4, as stated, fails. On a handle whose readiness future is still pending, a call such as
  \<open>db.tables.todos.getAll()\<close> throws a \<open>TypeError\<close>, because \<open>tables\<close> is still the
  empty object; it never reaches the gateway, whose NotOpen error it does not get. And after
  a rejected open (the schema has no primary key), a second open on the same handle with
  the todo schema succeeds: \<open>request.onsuccess\<close> synthesizes the operations, the readiness
  future stays rejected because a promise settles once, and an insert goes through to the
  backend.
\<close>

theorem crud_before_ready_throws_TypeError:
  "readyPromise (constructor_IDB ''app'' 1) = Pending
   \<and> tables_call sample_builtins (\<lambda>i. VNull) (constructor_IDB ''app'' 1) [] ''todos'' GetAllCall
       = (Throws TypeError, [])
   \<and> \<not> is_NotOpen TypeError
   \<and> readyPromise reopened_engine = Rejected (ErrNoPrimaryKey ''todos'')
   \<and> tables_call sample_builtins (\<lambda>i. VNull) reopened_engine (stores todo_backend) ''todos''
        (InsertCall [(''completed'', VBool False), (''updatedAt'', VNull)])
       = (Returns (Key (Resolved (VNum (Fin 1)))),
          [(''todos'', \<lparr>keyPath = ''id'', autoIncrementing = True, indexes = [],
                        rows = [[(''completed'', VBool False), (''updatedAt'', VNull),
                                 (''id'', VNum (Fin 1))]],
                        key_generator = 2\<rparr>)])"
  by (simp add: constructor_IDB_def tables_call_def reopened_engine_def open_IDB_def
      indexedDB_open_def onupgradeneeded_def createObjectStore_def onsuccess_def onerror_def
      initializeTableMethods_def Let_def broken_columns_def empty_backend_def todo_columns_def
      plain_column_def truthy_def truthy_str_def todo_backend_def insert_rec_def run_tx_def
      be_add_def assign_key_def get_prop_def violates_unique_def transaction_def
      backend_events_def)

text \<open>
  C4, amended: on a handle on which no open request has succeeded yet, a CRUD call (insert,
  select, update, delete, getAll) on any store fails at once: the operation set of the store
  has not been synthesized, reading it throws a \<open>TypeError\<close> before any request is made,
  nothing is queued or retried, and the backend is untouched. This is so in every state of
  a first \<open>open\<close> in which the readiness future is not resolved (it is pending or rejected);
  in every state that the handle goes through over any number of calls of \<open>open\<close> none of
  whose requests succeeds, where the readiness future is pending or rejected; and, after
  such calls, in every state of one more \<open>open\<close> but the last, the one that the success
  event of its request leaves if it succeeds. A request succeeds exactly when it resolves
  the readiness future of a fresh handle. The NotOpen error belongs to the gateway:
  \<open>transaction\<close>, called while no connection exists, rejects with it whatever the task.
\<close>

theorem crud_unavailable_until_ready:
  "(request_succeeds ver sch be
      = (readyPromise (last (fst (open_IDB sch (constructor_IDB name ver) be))) = Resolved ()))
   \<and> (e \<in> set (fst (open_IDB sch (constructor_IDB name ver) be)) \<and> readyPromise e \<noteq> Resolved ()
        \<longrightarrow> tables e = []
            \<and> tables_call B clock e db storeName c = (Throws TypeError, db))
   \<and> (list_all (\<lambda>(s, b). \<not> request_succeeds ver s b) reqs
        \<and> e \<in> set (open_many reqs (constructor_IDB name ver))
        \<longrightarrow> readyPromise e \<noteq> Resolved () \<and> tables e = []
            \<and> tables_call B clock e db storeName c = (Throws TypeError, db))
   \<and> (list_all (\<lambda>(s, b). \<not> request_succeeds ver s b) reqs
        \<and> e \<in> set (butlast (fst (open_IDB sch
                       (last (open_many reqs (constructor_IDB name ver))) be)))
        \<longrightarrow> tables e = []
            \<and> tables_call B clock e db storeName c = (Throws TypeError, db))
   \<and> (map_of (tables e) storeName = None
        \<longrightarrow> tables_call B clock e db storeName c = (Throws TypeError, db))
   \<and> transaction False run = Rejected ErrNotOpen"
proof -
  have t: "tables e = [] \<Longrightarrow> tables_call B clock e db storeName c = (Throws TypeError, db)"
    by (simp add: tables_call_def)
  have v: "version (constructor_IDB name ver) = ver" "tables (constructor_IDB name ver) = []"
    "readyPromise (constructor_IDB name ver) \<noteq> Resolved ()"
    by (simp_all add: constructor_IDB_def)
  have many: "readyPromise e \<noteq> Resolved () \<and> tables e = []"
    if "list_all (\<lambda>(s, b). \<not> request_succeeds ver s b) reqs"
      and "e \<in> set (open_many reqs (constructor_IDB name ver))"
    using open_many_fails[of "constructor_IDB name ver" reqs e] that v by simp
  have before: "tables e = []"
    if f: "list_all (\<lambda>(s, b). \<not> request_succeeds ver s b) reqs"
      and m: "e \<in> set (butlast (fst (open_IDB sch
                       (last (open_many reqs (constructor_IDB name ver))) be)))"
  proof -
    have "last (open_many reqs (constructor_IDB name ver))
          \<in> set (open_many reqs (constructor_IDB name ver))"
      by (rule last_in_set) (rule open_many_nonempty)
    from open_many_fails[of "constructor_IDB name ver" reqs, OF _ _ _ this] f v
    have "tables (last (open_many reqs (constructor_IDB name ver))) = []" by simp
    then show ?thesis using m by (rule open_IDB_before_success)
  qed
  show ?thesis
    using request_succeeds_fresh[of ver sch be name] open_IDB_first[of e sch name ver be] many t
      before
    by (simp add: tables_call_def transaction_def)
qed

theorem crud_unavailable_until_ready_witness:
  "list_all (\<lambda>(s, b). \<not> request_succeeds 1 s b) failing_requests
   \<and> last (open_many failing_requests (constructor_IDB ''app'' 1))
        \<in> set (open_many failing_requests (constructor_IDB ''app'' 1))
   \<and> readyPromise (last (open_many failing_requests (constructor_IDB ''app'' 1)))
        = Rejected (ErrNoPrimaryKey ''todos'')
   \<and> tables_call sample_builtins (\<lambda>i. VNull)
        (last (open_many failing_requests (constructor_IDB ''app'' 1)))
        (stores todo_backend) ''todos'' (InsertCall (todo_row 1 False))
       = (Throws TypeError, stores todo_backend)
   \<and> (constructor_IDB ''app'' 1)\<lparr>schemaDefinition := Some [(''todos'', todo_columns)]\<rparr>
        \<in> set (fst (open_IDB [(''todos'', todo_columns)] (constructor_IDB ''app'' 1) empty_backend))
   \<and> readyPromise ((constructor_IDB ''app'' 1)\<lparr>schemaDefinition := Some [(''todos'', todo_columns)]\<rparr>)
        \<noteq> Resolved ()
   \<and> tables_call sample_builtins (\<lambda>i. VNull)
        ((constructor_IDB ''app'' 1)\<lparr>schemaDefinition := Some [(''todos'', todo_columns)]\<rparr>)
        (stores todo_backend) ''todos'' GetAllCall
       = (Throws TypeError, stores todo_backend)
   \<and> request_succeeds 1 [(''todos'', todo_columns)] empty_backend
   \<and> readyPromise (last (fst (open_IDB [(''todos'', todo_columns)] (constructor_IDB ''app'' 1)
                                empty_backend))) = Resolved ()
   \<and> last (butlast (fst (open_IDB [(''todos'', todo_columns)]
              (last (open_many failing_requests (constructor_IDB ''app'' 1))) empty_backend)))
        \<in> set (butlast (fst (open_IDB [(''todos'', todo_columns)]
              (last (open_many failing_requests (constructor_IDB ''app'' 1))) empty_backend)))
   \<and> tables_call sample_builtins (\<lambda>i. VNull)
        (last (butlast (fst (open_IDB [(''todos'', todo_columns)]
              (last (open_many failing_requests (constructor_IDB ''app'' 1))) empty_backend))))
        (stores todo_backend) ''todos'' (DeleteCall None)
       = (Throws TypeError, stores todo_backend)
   \<and> map_of (tables todo_engine) ''notes'' = None
   \<and> tables_call sample_builtins (\<lambda>i. VNull) todo_engine (stores todo_backend) ''notes''
        (SelectCall (limit (Fin 1)))
       = (Throws TypeError, stores todo_backend)"
proof -
  let ?e = "last (open_many failing_requests (constructor_IDB ''app'' 1))"
  let ?fresh = "(constructor_IDB ''app'' 1)\<lparr>schemaDefinition := Some [(''todos'', todo_columns)]\<rparr>"
  have h1: "list_all (\<lambda>(s, b). \<not> request_succeeds 1 s b) failing_requests"
    by (simp add: failing_requests_def request_succeeds_def empty_backend_def
        broken_columns_def createObjectStore_def plain_column_def truthy_def)
  have h2: "?e \<in> set (open_many failing_requests (constructor_IDB ''app'' 1))"
    by (rule last_in_set) (rule open_many_nonempty)
  have r: "readyPromise ?e = Rejected (ErrNoPrimaryKey ''todos'')"
    by (simp add: failing_requests_def open_IDB_def indexedDB_open_def constructor_IDB_def
        onupgradeneeded_def onerror_def createObjectStore_def broken_columns_def
        empty_backend_def plain_column_def truthy_def Let_def)
  have h3: "?fresh \<in> set (fst (open_IDB [(''todos'', todo_columns)] (constructor_IDB ''app'' 1)
                              empty_backend))"
    by (simp add: open_IDB_def Let_def split: prod.splits)
  have h4: "readyPromise ?fresh \<noteq> Resolved ()" by (simp add: constructor_IDB_def)
  have h5: "request_succeeds 1 [(''todos'', todo_columns)] empty_backend"
    by (simp add: request_succeeds_def empty_backend_def createObjectStore_def todo_columns_def
        plain_column_def truthy_def truthy_str_def)
  note t1 = crud_unavailable_until_ready
      [of 1 "[(''todos'', todo_columns)]" empty_backend "''app''" ?e sample_builtins "\<lambda>i. VNull"
          "stores todo_backend" "''todos''" "InsertCall (todo_row 1 False)" failing_requests]
  note t2 = crud_unavailable_until_ready
      [of 1 "[(''todos'', todo_columns)]" empty_backend "''app''" ?fresh sample_builtins
          "\<lambda>i. VNull" "stores todo_backend" "''todos''" GetAllCall "[]"]
  from t1 h1 h2
  have c1: "tables_call sample_builtins (\<lambda>i. VNull) ?e (stores todo_backend) ''todos''
              (InsertCall (todo_row 1 False)) = (Throws TypeError, stores todo_backend)"
    by blast
  from t2 h3 h4
  have c2: "tables_call sample_builtins (\<lambda>i. VNull) ?fresh (stores todo_backend) ''todos''
              GetAllCall = (Throws TypeError, stores todo_backend)"
    by blast
  from t1 h5
  have c3: "readyPromise (last (fst (open_IDB [(''todos'', todo_columns)]
              (constructor_IDB ''app'' 1) empty_backend))) = Resolved ()"
    by blast
  let ?mid = "last (butlast (fst (open_IDB [(''todos'', todo_columns)] ?e empty_backend)))"
  have h6: "?mid \<in> set (butlast (fst (open_IDB [(''todos'', todo_columns)] ?e empty_backend)))"
    by (rule last_in_set) (rule open_IDB_butlast_nonempty)
  note t3 = crud_unavailable_until_ready
      [of 1 "[(''todos'', todo_columns)]" empty_backend "''app''" ?mid sample_builtins
          "\<lambda>i. VNull" "stores todo_backend" "''todos''" "DeleteCall None" failing_requests]
  from t3 h1 h6
  have c4: "tables_call sample_builtins (\<lambda>i. VNull) ?mid (stores todo_backend) ''todos''
              (DeleteCall None) = (Throws TypeError, stores todo_backend)"
    by blast
  have h7: "map_of (tables todo_engine) ''notes'' = None" by (simp add: todo_engine_ready)
  note t4 = crud_unavailable_until_ready
      [of 1 "[(''todos'', todo_columns)]" empty_backend "''app''" todo_engine sample_builtins
          "\<lambda>i. VNull" "stores todo_backend" "''notes''" "SelectCall (limit (Fin 1))" "[]"]
  from t4 h7
  have c5: "tables_call sample_builtins (\<lambda>i. VNull) todo_engine (stores todo_backend) ''notes''
              (SelectCall (limit (Fin 1))) = (Throws TypeError, stores todo_backend)"
    by blast
  from h1 h2 r c1 h3 h4 c2 h5 c3 h6 c4 h7 c5 show ?thesis by (intro conjI)
qed

subsection \<open>The record that update writes\<close>

lemma get_prop_updatedRecord:
  "distinct (map fst d) \<Longrightarrow> get_prop (updatedRecord pk d now r) k =
     (if k = ''updatedAt'' \<and> \<not> has_prop d ''updatedAt'' then now
      else if k \<noteq> pk \<and> has_prop d k then get_prop d k
      else get_prop r k)"
  by (auto simp: updatedRecord_def get_prop_def has_prop_def map_of_spread map_add_def
      map_of_rev_distinct distinct_map_filter map_of_filter_key split: option.splits)

lemma nth_updatedRecords:
  "i < length ms \<Longrightarrow>
   updatedRecords pk d clock ms ! i = updatedRecord pk d (clock i) (ms ! i)"
  by (simp add: updatedRecords_def nth_enumerate_eq)

lemma applyQuery_where:
  "applyQuery B (where_q conds new_QueryBuilder) data
   = filter (matches B (where_q conds new_QueryBuilder)) data"
  by (simp add: applyQuery_def where_q_def new_QueryBuilder_def)

lemma run_tx_put:
  assumes "db_conn eng" "map_of db s = Some os"
  shows "\<exists>p. run_tx eng db s (be_put w) = (p, set_prop s (snd (be_put w os)) db) \<and> p \<noteq> Pending"
  using assms
  by (cases "be_put w os"; cases "fst (be_put w os)")
     (auto simp: run_tx_def transaction_def backend_events_def)

lemma put_each_all:
  assumes "db_conn eng" "map_of db s = Some os"
  shows "\<exists>ps db'. put_each eng s ws db = (ps, db') \<and> Pending \<notin> set ps
      \<and> map_of db' s = Some (put_all ws os)
      \<and> (\<forall>s'. s' \<noteq> s \<longrightarrow> map_of db' s' = map_of db s')"
  using assms
proof (induction ws arbitrary: db os)
  case Nil
  then show ?case by (simp add: put_all_def)
next
  case (Cons w ws)
  let ?os1 = "snd (be_put w os)"
  let ?db1 = "set_prop s ?os1 db"
  from run_tx_put[OF Cons.prems, of w]
  obtain p where p: "run_tx eng db s (be_put w) = (p, ?db1)" "p \<noteq> Pending" by blast
  have m1: "map_of ?db1 s = Some ?os1" by (simp add: map_of_set_prop)
  from Cons.IH[OF Cons.prems(1) m1]
  obtain ps db' where r: "put_each eng s ws ?db1 = (ps, db')" "Pending \<notin> set ps"
    "map_of db' s = Some (put_all ws ?os1)" "\<forall>s'. s' \<noteq> s \<longrightarrow> map_of db' s' = map_of ?db1 s'"
    by blast
  have v: "void p \<noteq> Pending" using p(2) by (cases p) simp_all
  have "put_each eng s (w # ws) db = (void p # ps, db')" using p(1) r(1) by simp
  moreover have "Pending \<notin> set (void p # ps)" using v r(2) by auto
  moreover have "map_of db' s = Some (put_all (w # ws) os)" using r(3) by (simp add: put_all_def)
  moreover have "\<forall>s'. s' \<noteq> s \<longrightarrow> map_of db' s' = map_of db s'"
    using r(4) by (simp add: map_of_set_prop)
  ultimately show ?case by blast
qed

lemma promise_all_settled: "Pending \<notin> set ps \<Longrightarrow> promise_all ps \<noteq> Pending"
  by (auto simp: promise_all_def find_Some_iff split: option.splits)

lemma executeUpdate_puts:
  assumes "db_conn eng" and "map_of db s = Some os"
    and "getPrimaryKeyPath cols = Some pk" and "pk \<noteq> []"
  shows "\<exists>p db'. executeUpdate B clock eng db s cols d conds = (p, db') \<and> p \<noteq> Pending
      \<and> map_of db' s = Some (put_all (updatedRecords pk d clock (matched_records B conds os)) os)
      \<and> (\<forall>s'. s' \<noteq> s \<longrightarrow> map_of db' s' = map_of db s')"
proof -
  have ga: "getAllRecords eng db s = (Resolved (rows os), set_prop s os db)"
    using assms(1,2)
    by (simp add: getAllRecords_def run_tx_def be_getAll_def transaction_def backend_events_def)
  have m0: "map_of (set_prop s os db) s = Some os" by (simp add: map_of_set_prop)
  let ?ws = "updatedRecords pk d clock (matched_records B conds os)"
  from put_each_all[OF assms(1) m0, of ?ws]
  obtain ps db' where r: "put_each eng s ?ws (set_prop s os db) = (ps, db')" "Pending \<notin> set ps"
    "map_of db' s = Some (put_all ?ws os)"
    "\<forall>s'. s' \<noteq> s \<longrightarrow> map_of db' s' = map_of (set_prop s os db) s'"
    by blast
  have "executeUpdate B clock eng db s cols d conds = (promise_all ps, db')"
    using ga r(1) assms(3,4)
    by (simp add: executeUpdate_def Let_def applyQuery_where matched_records_def)
  moreover have "promise_all ps \<noteq> Pending" using r(2) by (rule promise_all_settled)
  moreover have "\<forall>s'. s' \<noteq> s \<longrightarrow> map_of db' s' = map_of db s'"
    using r(4) by (simp add: map_of_set_prop)
  ultimately show ?thesis using r(3) by blast
qed

text \<open>
  C5, as stated, fails: in a store whose primary-key column is itself named \<open>updatedAt\<close>,
  an update that does not set \<open>updatedAt\<close> stamps that column with the current time. The
  record that is written does not keep the key of the record it was made from, and \<open>put\<close>
  adds it beside the old one.
\<close>

theorem update_stamps_key_named_updatedAt:
  "getPrimaryKeyPath stamp_columns = Some ''updatedAt''
   \<and> tables_call sample_builtins (\<lambda>i. VDate 7 (Fin 2)) stamp_engine [(''notes'', stamp_store)]
        ''notes'' (UpdateCall [(''title'', VStr ''x'')] [(''title'', VStr ''a'')])
       = (Returns (Done (Resolved ())),
          [(''notes'', stamp_store\<lparr>rows :=
              [[(''updatedAt'', VNum (Fin 1)), (''title'', VStr ''a'')],
               [(''updatedAt'', VDate 7 (Fin 2)), (''title'', VStr ''x'')]]\<rparr>)])"
  by (simp add: stamp_engine_def stamp_columns_def stamp_store_def empty_backend_def open_IDB_def
      indexedDB_open_def constructor_IDB_def onupgradeneeded_def createObjectStore_def
      onsuccess_def initializeTableMethods_def Let_def tables_call_def executeUpdate_def
      getAllRecords_def run_tx_def be_getAll_def transaction_def backend_events_def
      applyQuery_def plain_column_def truthy_def truthy_str_def matches_def where_q_def
      new_QueryBuilder_def spread_def read_prop_def updatedRecords_def updatedRecord_def
      has_prop_def get_prop_def be_put_def assign_key_def violates_unique_def promise_all_def)

text \<open>
  C5, amended: on an open connection, for a store that the database holds and whose
  operations have been synthesized from a schema that names a primary-key column (with a
  non-empty name), \<open>update().set(partial).where(conditions)\<close> settles after one \<open>put\<close> per record of the
  store that matches the conditions, in the order of the store, and touches no other store.
  The record that is put for a match is the shallow merge of \<open>partial\<close> (an object, so its
  keys are distinct) onto the match, in which: the primary-key field keeps the value of the
  match even if \<open>partial\<close> has a value for it, unless the primary-key column is itself
  named \<open>updatedAt\<close> and \<open>partial\<close> has no \<open>updatedAt\<close> key; \<open>updatedAt\<close> is the
  current time exactly when \<open>partial\<close> has no \<open>updatedAt\<close> key, and otherwise the value
  \<open>partial\<close> gives, or the value of the match when \<open>updatedAt\<close> is the primary-key
  column; every field that \<open>partial\<close> does not name, other than \<open>updatedAt\<close>, is
  unchanged; and every field that \<open>partial\<close> names, other than the primary key, takes its
  value from \<open>partial\<close>.
\<close>

theorem update_writes_shallow_merge:
  assumes "db_conn eng" and "map_of (tables eng) storeName = Some storeSchema"
    and "map_of db storeName = Some os"
    and "getPrimaryKeyPath storeSchema = Some pk" and "pk \<noteq> []"
    and "distinct (map fst dataToSet)"
  shows "(\<exists>p db'. tables_call B clock eng db storeName (UpdateCall dataToSet conds)
                    = (Returns (Done p), db')
              \<and> p \<noteq> Pending
              \<and> map_of db' storeName
                  = Some (put_all (updatedRecords pk dataToSet clock (matched_records B conds os))
                            os)
              \<and> (\<forall>s. s \<noteq> storeName \<longrightarrow> map_of db' s = map_of db s))
    \<and> length (updatedRecords pk dataToSet clock (matched_records B conds os))
        = length (matched_records B conds os)
    \<and> (\<forall>i < length (matched_records B conds os).
          (pk \<noteq> ''updatedAt'' \<or> has_prop dataToSet ''updatedAt'' \<longrightarrow>
             get_prop (updatedRecords pk dataToSet clock (matched_records B conds os) ! i) pk
               = get_prop (matched_records B conds os ! i) pk)
        \<and> (\<not> has_prop dataToSet ''updatedAt'' \<longrightarrow>
             get_prop (updatedRecords pk dataToSet clock (matched_records B conds os) ! i)
               ''updatedAt'' = clock i)
        \<and> (has_prop dataToSet ''updatedAt'' \<longrightarrow>
             get_prop (updatedRecords pk dataToSet clock (matched_records B conds os) ! i)
               ''updatedAt''
               = (if pk = ''updatedAt'' then get_prop (matched_records B conds os ! i) ''updatedAt''
                  else get_prop dataToSet ''updatedAt''))
        \<and> (\<forall>k. \<not> has_prop dataToSet k \<and> k \<noteq> ''updatedAt'' \<longrightarrow>
             get_prop (updatedRecords pk dataToSet clock (matched_records B conds os) ! i) k
               = get_prop (matched_records B conds os ! i) k)
        \<and> (\<forall>k. has_prop dataToSet k \<and> k \<noteq> pk \<longrightarrow>
             get_prop (updatedRecords pk dataToSet clock (matched_records B conds os) ! i) k
               = get_prop dataToSet k))"
proof -
  let ?ms = "matched_records B conds os"
  from executeUpdate_puts[OF assms(1,3,4,5), of B clock dataToSet conds]
  obtain p db' where e: "executeUpdate B clock eng db storeName storeSchema dataToSet conds = (p, db')"
    "p \<noteq> Pending"
    "map_of db' storeName = Some (put_all (updatedRecords pk dataToSet clock ?ms) os)"
    "\<forall>s'. s' \<noteq> storeName \<longrightarrow> map_of db' s' = map_of db s'"
    by blast
  have call: "tables_call B clock eng db storeName (UpdateCall dataToSet conds)
              = (Returns (Done p), db')"
    using e(1) assms(2) by (simp add: tables_call_def)
  have len: "length (updatedRecords pk dataToSet clock ?ms) = length ?ms"
    by (simp add: updatedRecords_def)
  have w: "get_prop (updatedRecords pk dataToSet clock ?ms ! i) k =
     (if k = ''updatedAt'' \<and> \<not> has_prop dataToSet ''updatedAt'' then clock i
      else if k \<noteq> pk \<and> has_prop dataToSet k then get_prop dataToSet k
      else get_prop (?ms ! i) k)" if "i < length ?ms" for i k
    using that assms(6) by (simp only: nth_updatedRecords get_prop_updatedRecord)
  have ex: "\<exists>p db'. tables_call B clock eng db storeName (UpdateCall dataToSet conds)
                    = (Returns (Done p), db')
              \<and> p \<noteq> Pending
              \<and> map_of db' storeName
                  = Some (put_all (updatedRecords pk dataToSet clock ?ms) os)
              \<and> (\<forall>s. s \<noteq> storeName \<longrightarrow> map_of db' s = map_of db s)"
    using call e(2,3,4) by blast
  have fields: "\<forall>i < length ?ms.
          (pk \<noteq> ''updatedAt'' \<or> has_prop dataToSet ''updatedAt'' \<longrightarrow>
             get_prop (updatedRecords pk dataToSet clock ?ms ! i) pk = get_prop (?ms ! i) pk)
        \<and> (\<not> has_prop dataToSet ''updatedAt'' \<longrightarrow>
             get_prop (updatedRecords pk dataToSet clock ?ms ! i) ''updatedAt'' = clock i)
        \<and> (has_prop dataToSet ''updatedAt'' \<longrightarrow>
             get_prop (updatedRecords pk dataToSet clock ?ms ! i) ''updatedAt''
               = (if pk = ''updatedAt'' then get_prop (?ms ! i) ''updatedAt''
                  else get_prop dataToSet ''updatedAt''))
        \<and> (\<forall>k. \<not> has_prop dataToSet k \<and> k \<noteq> ''updatedAt'' \<longrightarrow>
             get_prop (updatedRecords pk dataToSet clock ?ms ! i) k = get_prop (?ms ! i) k)
        \<and> (\<forall>k. has_prop dataToSet k \<and> k \<noteq> pk \<longrightarrow>
             get_prop (updatedRecords pk dataToSet clock ?ms ! i) k = get_prop dataToSet k)"
    by (simp add: w)
  from ex len fields show ?thesis by (intro conjI)
qed

theorem update_writes_shallow_merge_witness:
  "db_conn todo_engine \<and> map_of (tables todo_engine) ''todos'' = Some todo_columns
   \<and> map_of [(''todos'', todo_store)] ''todos'' = Some todo_store
   \<and> getPrimaryKeyPath todo_columns = Some ''id''
   \<and> distinct (map fst [(''completed'', VBool True), (''id'', VNum (Fin 9))])
   \<and> matched_records sample_builtins [(''id'', VNum (Fin 1))] todo_store = [todo_row 1 False]
   \<and> (0::nat) < length (matched_records sample_builtins [(''id'', VNum (Fin 1))] todo_store)
   \<and> \<not> has_prop [(''completed'', VBool True), (''id'', VNum (Fin 9))] ''updatedAt''
   \<and> has_prop [(''completed'', VBool True), (''id'', VNum (Fin 9))] ''completed''
   \<and> get_prop (updatedRecords ''id'' [(''completed'', VBool True), (''id'', VNum (Fin 9))]
         (\<lambda>i. VDate 7 (Fin 100)) [todo_row 1 False] ! 0) ''id'' = VNum (Fin 1)
   \<and> get_prop (updatedRecords ''id'' [(''completed'', VBool True), (''id'', VNum (Fin 9))]
         (\<lambda>i. VDate 7 (Fin 100)) [todo_row 1 False] ! 0) ''updatedAt'' = VDate 7 (Fin 100)
   \<and> get_prop (updatedRecords ''id'' [(''completed'', VBool True), (''id'', VNum (Fin 9))]
         (\<lambda>i. VDate 7 (Fin 100)) [todo_row 1 False] ! 0) ''completed'' = VBool True
   \<and> distinct (map fst [(''updatedAt'', VDate 8 (Fin 50))])
   \<and> has_prop [(''updatedAt'', VDate 8 (Fin 50))] ''updatedAt''
   \<and> \<not> has_prop [(''updatedAt'', VDate 8 (Fin 50))] ''completed''
   \<and> get_prop (updatedRecords ''id'' [(''updatedAt'', VDate 8 (Fin 50))]
         (\<lambda>i. VDate 7 (Fin 100)) [todo_row 1 False] ! 0) ''updatedAt'' = VDate 8 (Fin 50)
   \<and> get_prop (updatedRecords ''id'' [(''updatedAt'', VDate 8 (Fin 50))]
         (\<lambda>i. VDate 7 (Fin 100)) [todo_row 1 False] ! 0) ''completed'' = VBool False
   \<and> put_all (updatedRecords ''id'' [(''completed'', VBool True), (''id'', VNum (Fin 9))]
         (\<lambda>i. VDate 7 (Fin 100)) [todo_row 1 False]) todo_store
       = todo_store\<lparr>rows := [[(''id'', VNum (Fin 1)), (''completed'', VBool True),
                                (''updatedAt'', VDate 7 (Fin 100))],
                               todo_row 2 True]\<rparr>
   \<and> tables_call sample_builtins (\<lambda>i. VDate 7 (Fin 100)) todo_engine
        [(''todos'', todo_store)] ''todos''
        (UpdateCall [(''completed'', VBool True), (''id'', VNum (Fin 9))] [(''id'', VNum (Fin 1))])
       = (Returns (Done (Resolved ())),
          [(''todos'', todo_store\<lparr>rows := [[(''id'', VNum (Fin 1)), (''completed'', VBool True),
                                             (''updatedAt'', VDate 7 (Fin 100))],
                                            todo_row 2 True]\<rparr>)])"
proof -
  let ?d = "[(''completed'', VBool True), (''id'', VNum (Fin 9))]"
  let ?c = "[(''id'', VNum (Fin 1))]"
  let ?clock = "\<lambda>i::nat. VDate 7 (Fin 100)"
  let ?db = "[(''todos'', todo_store)]"
  let ?new = "todo_store\<lparr>rows := [[(''id'', VNum (Fin 1)), (''completed'', VBool True),
                                     (''updatedAt'', VDate 7 (Fin 100))],
                                    todo_row 2 True]\<rparr>"
  have h1: "db_conn todo_engine" by (simp add: todo_engine_ready)
  have h2: "map_of (tables todo_engine) ''todos'' = Some todo_columns"
    by (simp add: todo_engine_ready)
  have h3: "map_of ?db ''todos'' = Some todo_store" by simp
  have h4: "getPrimaryKeyPath todo_columns = Some ''id''"
    by (simp add: todo_columns_def plain_column_def truthy_def)
  have h5: "''id'' \<noteq> []" by simp
  have h6: "distinct (map fst ?d)" by simp
  have m: "matched_records sample_builtins ?c todo_store = [todo_row 1 False]"
    by (simp add: matched_records_def matches_def where_q_def new_QueryBuilder_def spread_def
        todo_store_def todo_row_def read_prop_def)
  have l: "(0::nat) < length (matched_records sample_builtins ?c todo_store)"
    by (simp add: m)
  have n1: "\<not> has_prop ?d ''updatedAt''" by (simp add: has_prop_def)
  have n2: "has_prop ?d ''completed''" by (simp add: has_prop_def)
  note t = update_writes_shallow_merge[OF h1 h2 h3 h4 h5 h6, of sample_builtins ?clock ?c]
  from t l have f: "
          (''id'' \<noteq> ''updatedAt'' \<or> has_prop ?d ''updatedAt'' \<longrightarrow>
             get_prop (updatedRecords ''id'' ?d ?clock (matched_records sample_builtins ?c todo_store) ! 0) ''id''
               = get_prop (matched_records sample_builtins ?c todo_store ! 0) ''id'')
        \<and> (\<not> has_prop ?d ''updatedAt'' \<longrightarrow>
             get_prop (updatedRecords ''id'' ?d ?clock (matched_records sample_builtins ?c todo_store) ! 0)
               ''updatedAt'' = ?clock 0)
        \<and> (\<forall>k. has_prop ?d k \<and> k \<noteq> ''id'' \<longrightarrow>
             get_prop (updatedRecords ''id'' ?d ?clock (matched_records sample_builtins ?c todo_store) ! 0) k
               = get_prop ?d k)"
    by blast
  from f have c1: "get_prop (updatedRecords ''id'' ?d ?clock [todo_row 1 False] ! 0) ''id''
                   = VNum (Fin 1)"
    unfolding m by (simp add: todo_row_def get_prop_def)
  from f n1 have c2: "get_prop (updatedRecords ''id'' ?d ?clock [todo_row 1 False] ! 0) ''updatedAt''
                   = VDate 7 (Fin 100)"
    unfolding m by blast
  from f n2 have "get_prop (updatedRecords ''id'' ?d ?clock [todo_row 1 False] ! 0) ''completed''
                   = get_prop ?d ''completed''"
    unfolding m by (auto simp del: nth_Cons_0)
  then have c3: "get_prop (updatedRecords ''id'' ?d ?clock [todo_row 1 False] ! 0) ''completed''
                   = VBool True"
    by (simp add: get_prop_def)
  have p: "put_all (updatedRecords ''id'' ?d ?clock [todo_row 1 False]) todo_store = ?new"
    by (simp add: put_all_def updatedRecords_def updatedRecord_def spread_def has_prop_def
        todo_row_def todo_store_def be_put_def assign_key_def get_prop_def violates_unique_def
        Let_def)
  have c4: "tables_call sample_builtins ?clock todo_engine ?db ''todos'' (UpdateCall ?d ?c)
        = (Returns (Done (Resolved ())), [(''todos'', ?new)])"
    by (simp add: tables_call_def todo_engine_ready executeUpdate_def getAllRecords_def
        run_tx_def be_getAll_def transaction_def backend_events_def applyQuery_def h4 Let_def
        matches_def where_q_def new_QueryBuilder_def spread_def read_prop_def
        updatedRecords_def updatedRecord_def has_prop_def get_prop_def todo_row_def
        todo_store_def be_put_def assign_key_def violates_unique_def promise_all_def)
  let ?u = "[(''updatedAt'', VDate 8 (Fin 50))]"
  have g6: "distinct (map fst ?u)" by simp
  have g1: "has_prop ?u ''updatedAt''" by (simp add: has_prop_def)
  have g2: "\<not> has_prop ?u ''completed''" by (simp add: has_prop_def)
  note u = update_writes_shallow_merge[OF h1 h2 h3 h4 h5 g6, of sample_builtins ?clock ?c]
  from u l have uf: "
          (has_prop ?u ''updatedAt'' \<longrightarrow>
             get_prop (updatedRecords ''id'' ?u ?clock (matched_records sample_builtins ?c todo_store) ! 0)
               ''updatedAt''
               = (if ''id'' = ''updatedAt''
                  then get_prop (matched_records sample_builtins ?c todo_store ! 0) ''updatedAt''
                  else get_prop ?u ''updatedAt''))
        \<and> (\<forall>k. \<not> has_prop ?u k \<and> k \<noteq> ''updatedAt'' \<longrightarrow>
             get_prop (updatedRecords ''id'' ?u ?clock (matched_records sample_builtins ?c todo_store) ! 0) k
               = get_prop (matched_records sample_builtins ?c todo_store ! 0) k)"
    by blast
  from uf g1 have d1: "get_prop (updatedRecords ''id'' ?u ?clock [todo_row 1 False] ! 0) ''updatedAt''
                   = VDate 8 (Fin 50)"
    unfolding m by (simp add: get_prop_def)
  from uf g2 have "get_prop (updatedRecords ''id'' ?u ?clock [todo_row 1 False] ! 0) ''completed''
                   = get_prop ([todo_row 1 False] ! 0) ''completed''"
    unfolding m by (auto simp del: nth_Cons_0)
  then have d2: "get_prop (updatedRecords ''id'' ?u ?clock [todo_row 1 False] ! 0) ''completed''
                   = VBool False"
    by (simp add: get_prop_def todo_row_def)
  from h1 h2 h3 h4 h6 m l n1 n2 c1 c2 c3 g6 g1 g2 d1 d2 p c4 show ?thesis by (intro conjI)
qed

subsection \<open>Relational conditions on null and missing values\<close>












subsection \<open>Deleting without a condition\<close>

lemma those_Some_all: "those ys \<noteq> None \<Longrightarrow> None \<notin> set ys"
  by (induction ys) (auto split: option.splits)

lemma key_of_isValidKey: "key_of v \<noteq> None \<Longrightarrow> isValidKey v"
proof (induction v)
  case (VArr r xs)
  then have "those (map key_of xs) \<noteq> None" by auto
  then have "None \<notin> set (map key_of xs)" by (rule those_Some_all)
  then have "\<forall>x \<in> set xs. key_of x \<noteq> None" by force
  with VArr.IH show ?case by (simp add: list_all_iff)
qed simp_all

lemma read_prop_keyed: "key_of (get_prop r k) = Some x \<Longrightarrow> read_prop r k = get_prop r k"
  by (auto simp: read_prop_def get_prop_def split: option.splits)

lemma matches_new_QueryBuilder: "matches B new_QueryBuilder item"
  by (simp add: matches_def new_QueryBuilder_def)

lemma applyQuery_new_QueryBuilder: "applyQuery B new_QueryBuilder data = data"
  by (simp add: applyQuery_def new_QueryBuilder_def matches_def)

lemma run_tx_delete:
  assumes "db_conn eng" "map_of db s = Some os" "key_of key = Some k"
  shows "run_tx eng db s (be_delete key)
         = (Resolved (),
            set_prop s (os\<lparr>rows := filter (\<lambda>r. key_of (get_prop r (keyPath os)) \<noteq> Some k)
                                      (rows os)\<rparr>) db)"
  using assms by (simp add: run_tx_def be_delete_def transaction_def backend_events_def)

lemma delete_each_all:
  assumes "db_conn eng" "map_of db s = Some os"
    and "\<forall>r \<in> set recs. key_of (get_prop r (keyPath os)) \<noteq> None"
  shows "\<exists>db'. delete_each eng s (keyPath os) recs db = (replicate (length recs) (Resolved ()), db')
      \<and> map_of db' s
          = Some (os\<lparr>rows := filter (\<lambda>r. key_of (get_prop r (keyPath os))
                                           \<notin> (\<lambda>x. key_of (get_prop x (keyPath os))) ` set recs)
                                  (rows os)\<rparr>)
      \<and> (\<forall>s'. s' \<noteq> s \<longrightarrow> map_of db' s' = map_of db s')"
  using assms
proof (induction recs arbitrary: db os)
  case Nil
  then show ?case by simp
next
  case (Cons r recs)
  from Cons.prems(3) obtain k where k: "key_of (get_prop r (keyPath os)) = Some k" by auto
  then have v: "isValidKey (get_prop r (keyPath os))" by (intro key_of_isValidKey) simp
  have rp: "read_prop r (keyPath os) = get_prop r (keyPath os)" using k by (rule read_prop_keyed)
  let ?os1 = "os\<lparr>rows := filter (\<lambda>x. key_of (get_prop x (keyPath os)) \<noteq> Some k) (rows os)\<rparr>"
  let ?db1 = "set_prop s ?os1 db"
  have step: "run_tx eng db s (be_delete (get_prop r (keyPath os))) = (Resolved (), ?db1)"
    using run_tx_delete[OF Cons.prems(1,2) k] .
  have m1: "map_of ?db1 s = Some ?os1" by (simp add: map_of_set_prop)
  have kp: "keyPath ?os1 = keyPath os" by simp
  have "\<forall>x \<in> set recs. key_of (get_prop x (keyPath ?os1)) \<noteq> None" using Cons.prems(3) by simp
  from Cons.IH[OF Cons.prems(1) m1 this]
  obtain db' where d: "delete_each eng s (keyPath os) recs ?db1
                        = (replicate (length recs) (Resolved ()), db')"
    and m: "map_of db' s
          = Some (?os1\<lparr>rows := filter (\<lambda>x. key_of (get_prop x (keyPath os))
                                           \<notin> (\<lambda>x. key_of (get_prop x (keyPath os))) ` set recs)
                                  (rows ?os1)\<rparr>)"
    and o: "\<forall>s'. s' \<noteq> s \<longrightarrow> map_of db' s' = map_of ?db1 s'"
    by auto
  have "delete_each eng s (keyPath os) (r # recs) db
          = (replicate (length (r # recs)) (Resolved ()), db')"
    using v step d by (simp add: rp)
  moreover have "map_of db' s
          = Some (os\<lparr>rows := filter (\<lambda>x. key_of (get_prop x (keyPath os))
                                     \<notin> (\<lambda>x. key_of (get_prop x (keyPath os))) ` set (r # recs))
                                  (rows os)\<rparr>)"
    using m k by (auto intro!: filter_cong)
  moreover have "\<forall>s'. s' \<noteq> s \<longrightarrow> map_of db' s' = map_of db s'"
    using o by (simp add: map_of_set_prop)
  ultimately show ?case by blast
qed

lemma promise_all_resolved: "promise_all (replicate n (Resolved ())) = Resolved ()"
proof -
  have "find is_rejected (replicate n (Resolved ())) = None"
    by (simp add: find_None_iff)
  then show ?thesis by (simp add: promise_all_def)
qed

lemma assign_key_keyed:
  "assign_key os r = Inr (key, r', g) \<Longrightarrow> key_of (get_prop r' (keyPath os)) \<noteq> None"
  by (auto simp: assign_key_def Let_def get_prop_def map_of_set_prop
      split: if_splits option.splits idb_key.splits jsnum.splits)

lemma be_add_store_wf: "store_wf os \<Longrightarrow> be_add r os = (res, os') \<Longrightarrow> store_wf os'"
  by (auto simp: be_add_def store_wf_def split: sum.splits prod.splits if_splits
      dest: assign_key_keyed)

lemma be_put_store_wf: "store_wf os \<Longrightarrow> be_put r os = (res, os') \<Longrightarrow> store_wf os'"
  by (auto simp: be_put_def store_wf_def list_all_iff split: sum.splits prod.splits if_splits
      dest: assign_key_keyed)

lemma be_delete_store_wf: "store_wf os \<Longrightarrow> be_delete key os = (res, os') \<Longrightarrow> store_wf os'"
  by (auto simp: be_delete_def store_wf_def list_all_iff split: option.splits)

lemma find_primary_key_first:
  "find_primary_key s cols pk ai = Inr (res, a) \<Longrightarrow> pk_names_nonempty cols
   \<Longrightarrow> pk = None \<or> truthy_str pk
   \<Longrightarrow> res = (case getPrimaryKeyPath cols of None \<Rightarrow> pk | Some p \<Rightarrow> Some p)
       \<and> (truthy_str pk \<longrightarrow> getPrimaryKeyPath cols = None)"
  by (induction s cols pk ai rule: find_primary_key.induct)
     (auto simp: pk_names_nonempty_def truthy_str_def split: if_splits option.splits)

lemma createObjectStore_keyPath:
  assumes "createObjectStore s cols db = Inr db'" and "map_of db s = None"
    and "pk_names_nonempty cols"
  shows "\<exists>os. map_of db' s = Some os \<and> getPrimaryKeyPath cols = Some (keyPath os)
              \<and> keyPath os \<noteq> [] \<and> store_wf os"
  using assms find_primary_key_first[of s cols None False _ _]
  by (auto simp: createObjectStore_def store_wf_def map_add_def
      split: sum.splits prod.splits option.splits if_splits)

lemma map_of_fold_set_prop:
  "map_of (fold (\<lambda>(k, v). set_prop k v) s t) = map_of t ++ map_of (rev s)"
proof (induction s arbitrary: t)
  case Nil
  then show ?case by simp
next
  case (Cons a s)
  obtain k v where a: "a = (k, v)" by (cases a)
  show ?case using Cons[of "set_prop k v t"]
    by (auto simp: a map_of_set_prop fun_eq_iff map_add_def split: option.splits)
qed

lemma create_stores_keyPath:
  assumes "create_stores sch db = (db', None)" and "distinct (map fst sch)"
    and "(s, cols) \<in> set sch" and "map_of db s = None" and "pk_names_nonempty cols"
  shows "\<exists>os. map_of db' s = Some os \<and> getPrimaryKeyPath cols = Some (keyPath os)
              \<and> keyPath os \<noteq> [] \<and> store_wf os"
  using assms
proof (induction sch arbitrary: db)
  case Nil
  then show ?case by simp
next
  case (Cons a sch)
  obtain s' cols' where a: "a = (s', cols')" by (cases a)
  from Cons.prems(1) a obtain db1 where c: "createObjectStore s' cols' db = Inr db1"
    and r: "create_stores sch db1 = (db', None)"
    by (auto split: sum.splits)
  show ?case
  proof (cases "s' = s")
    case True
    with Cons.prems(2,3) a have cols: "cols' = cols" by (auto simp: image_iff)
    from createObjectStore_keyPath[OF c[unfolded True cols] Cons.prems(4,5)]
    obtain os where os: "map_of db1 s = Some os" "getPrimaryKeyPath cols = Some (keyPath os)"
      "keyPath os \<noteq> []" "store_wf os" by blast
    have "map_of db' s = map_of db1 s"
      using r Cons.prems(2) a True
    proof (induction sch arbitrary: db1)
      case Nil
      then show ?case by simp
    next
      case (Cons b sch)
      obtain s2 cols2 where b: "b = (s2, cols2)" by (cases b)
      from Cons.prems(1) b obtain db2 where c2: "createObjectStore s2 cols2 db1 = Inr db2"
        and r2: "create_stores sch db2 = (db', None)"
        by (auto split: sum.splits)
      from Cons.prems(2,3,4) b have ne: "s \<noteq> s2" by auto
      from Cons.prems(2,3,4) b have d: "distinct (map fst (a # sch))" by auto
      from Cons.IH[OF r2 d Cons.prems(3,4)] createObjectStore_other[OF c2 ne]
      show ?case by simp
    qed
    with os show ?thesis by simp
  next
    case False
    with Cons.prems(3) a have mem: "(s, cols) \<in> set sch" by auto
    have "map_of db1 s = None"
      using createObjectStore_other[OF c, of s] False Cons.prems(4) by auto
    from Cons.IH[OF r _ mem this Cons.prems(5)] Cons.prems(2) show ?thesis by simp
  qed
qed

lemma open_IDB_creates_keyed_store:
  assumes "stored_version be < ver" and "distinct (map fst sch)" and "(s, cols) \<in> set sch"
    and "map_of (stores be) s = None" and "pk_names_nonempty cols"
    and "readyPromise (last (fst (open_IDB sch (constructor_IDB name ver) be))) = Resolved ()"
  shows "db_conn (last (fst (open_IDB sch (constructor_IDB name ver) be)))
     \<and> map_of (tables (last (fst (open_IDB sch (constructor_IDB name ver) be)))) s = Some cols
     \<and> (\<exists>os. map_of (stores (snd (open_IDB sch (constructor_IDB name ver) be))) s = Some os
              \<and> getPrimaryKeyPath cols = Some (keyPath os) \<and> keyPath os \<noteq> [] \<and> store_wf os)"
proof -
  obtain db' err where cs: "create_stores sch (stores be) = (db', err)" by (cases "create_stores sch (stores be)")
  have none: "err = None"
  proof (cases err)
    case (Some e)
    with cs assms(1,6) show ?thesis
      by (simp add: open_IDB_def indexedDB_open_def constructor_IDB_def onupgradeneeded_def
          onerror_def Let_def)
  qed simp
  have tr: "fst (open_IDB sch (constructor_IDB name ver) be)
            = [constructor_IDB name ver,
               (constructor_IDB name ver)\<lparr>schemaDefinition := Some sch\<rparr>,
               (constructor_IDB name ver)\<lparr>schemaDefinition := Some sch, db_conn := True\<rparr>,
               onsuccess ((constructor_IDB name ver)\<lparr>schemaDefinition := Some sch, db_conn := True\<rparr>)]"
    and be': "snd (open_IDB sch (constructor_IDB name ver) be) = \<lparr>stored_version = ver, stores = db'\<rparr>"
    using cs none assms(1)
    by (simp_all add: open_IDB_def indexedDB_open_def constructor_IDB_def onupgradeneeded_def
        Let_def)
  have tb: "map_of (tables (onsuccess ((constructor_IDB name ver)\<lparr>schemaDefinition := Some sch, db_conn := True\<rparr>))) s
            = Some cols"
    using assms(2,3)
    by (simp add: onsuccess_def initializeTableMethods_def constructor_IDB_def Let_def
        map_of_fold_set_prop map_of_rev_distinct)
  from create_stores_keyPath[OF cs[unfolded none] assms(2,3,4,5)]
  show ?thesis unfolding tr be' using tb
    by (simp add: onsuccess_def initializeTableMethods_def Let_def)
qed

text \<open>
  C9, as stated, fails: the database already holds the store \<open>todos\<close>, keyed by \<open>id\<close>, when
  a schema whose primary key is \<open>uuid\<close> is opened at a higher version; \<open>createObjectStore\<close>
  skips the store and the engine is ready. No record has a \<open>uuid\<close>, so \<open>executeDelete\<close>
  finds no valid key, skips every record, and \<open>delete()\<close> resolves with both records still
  in the store.
\<close>

theorem delete_skips_records_without_schema_key:
  "readyPromise legacy_engine = Resolved ()
   \<and> rows todo_store = [todo_row 1 False, todo_row 2 True]
   \<and> tables_call sample_builtins (\<lambda>i. VNull) legacy_engine (stores legacy_backend) ''todos''
        (DeleteCall None)
       = (Returns (Done (Resolved ())), [(''todos'', todo_store)])"
  by (simp add: legacy_engine_def legacy_backend_def uuid_columns_def open_IDB_def
      indexedDB_open_def constructor_IDB_def onupgradeneeded_def createObjectStore_def
      onsuccess_def initializeTableMethods_def Let_def tables_call_def executeDelete_def
      getAllRecords_def run_tx_def be_getAll_def transaction_def backend_events_def
      applyQuery_new_QueryBuilder plain_column_def truthy_def todo_store_def todo_row_def
      read_prop_def inherited_def object_prototype_def promise_all_def)

text \<open>
  C9, amended: on an open connection, in a store whose operations have been synthesized,
  that is keyed by the primary-key column which the schema declares for it (its name is not
  empty), and whose rows hold a key there as the backend requires, awaiting the object that \<open>delete()\<close> returns,
  without \<open>where\<close>, runs the delete with the empty condition set, which every record
  matches: every record of the store is deleted, the call resolves, and the other stores
  are untouched. \<open>open\<close> sets all this up when it resolves on a fresh handle after an
  upgrade, for every store of the schema that the database did not hold before and whose
  primary-key columns have non-empty names; and the backend keeps every row keyed when it
  adds, puts and deletes.
\<close>

theorem delete_without_where_removes_every_record:
  "(db_conn eng \<and> map_of (tables eng) storeName = Some storeSchema
      \<and> map_of db storeName = Some os \<and> store_wf os
      \<and> getPrimaryKeyPath storeSchema = Some (keyPath os) \<and> keyPath os \<noteq> []
     \<longrightarrow> applyQuery B new_QueryBuilder (rows os) = rows os
         \<and> (\<exists>db'. tables_call B clock eng db storeName (DeleteCall None)
                      = (Returns (Done (Resolved ())), db')
                  \<and> map_of db' storeName = Some (os\<lparr>rows := []\<rparr>)
                  \<and> (\<forall>s. s \<noteq> storeName \<longrightarrow> map_of db' s = map_of db s)))
   \<and> (stored_version be < ver \<and> distinct (map fst sch) \<and> (storeName, storeSchema) \<in> set sch
      \<and> map_of (stores be) storeName = None \<and> pk_names_nonempty storeSchema
      \<and> readyPromise (last (fst (open_IDB sch (constructor_IDB name ver) be))) = Resolved ()
     \<longrightarrow> db_conn (last (fst (open_IDB sch (constructor_IDB name ver) be)))
         \<and> map_of (tables (last (fst (open_IDB sch (constructor_IDB name ver) be)))) storeName
             = Some storeSchema
         \<and> (\<exists>os'. map_of (stores (snd (open_IDB sch (constructor_IDB name ver) be))) storeName
                     = Some os'
                  \<and> store_wf os' \<and> getPrimaryKeyPath storeSchema = Some (keyPath os')
                  \<and> keyPath os' \<noteq> []))
   \<and> (store_wf os \<longrightarrow>
         store_wf (snd (be_add r os)) \<and> store_wf (snd (be_put r os))
         \<and> store_wf (snd (be_delete key os)))"
proof -
  have del: "applyQuery B new_QueryBuilder (rows os) = rows os
         \<and> (\<exists>db'. tables_call B clock eng db storeName (DeleteCall None)
                      = (Returns (Done (Resolved ())), db')
                  \<and> map_of db' storeName = Some (os\<lparr>rows := []\<rparr>)
                  \<and> (\<forall>s. s \<noteq> storeName \<longrightarrow> map_of db' s = map_of db s))"
    if a: "db_conn eng" "map_of (tables eng) storeName = Some storeSchema"
      "map_of db storeName = Some os" "store_wf os"
      "getPrimaryKeyPath storeSchema = Some (keyPath os)" "keyPath os \<noteq> []"
  proof -
    have ga: "getAllRecords eng db storeName = (Resolved (rows os), set_prop storeName os db)"
      using a(1,3)
      by (simp add: getAllRecords_def run_tx_def be_getAll_def transaction_def backend_events_def)
    have m0: "map_of (set_prop storeName os db) storeName = Some os"
      by (simp add: map_of_set_prop)
    have wf: "\<forall>r \<in> set (rows os). key_of (get_prop r (keyPath os)) \<noteq> None"
      using a(4) by (simp add: store_wf_def list_all_iff)
    from delete_each_all[OF a(1) m0 wf]
    obtain db' where d: "delete_each eng storeName (keyPath os) (rows os) (set_prop storeName os db)
                          = (replicate (length (rows os)) (Resolved ()), db')"
      and m: "map_of db' storeName
            = Some (os\<lparr>rows := filter (\<lambda>r. key_of (get_prop r (keyPath os))
                                       \<notin> (\<lambda>x. key_of (get_prop x (keyPath os))) ` set (rows os))
                                    (rows os)\<rparr>)"
      and o: "\<forall>s'. s' \<noteq> storeName \<longrightarrow> map_of db' s' = map_of (set_prop storeName os db) s'"
      by blast
    have e: "filter (\<lambda>r. key_of (get_prop r (keyPath os))
                         \<notin> (\<lambda>x. key_of (get_prop x (keyPath os))) ` set (rows os)) (rows os) = []"
      by (simp add: filter_empty_conv)
    have ex: "executeDelete B eng db storeName storeSchema new_QueryBuilder = (Resolved (), db')"
      using ga d a(5,6)
      by (simp add: executeDelete_def applyQuery_new_QueryBuilder promise_all_resolved)
    have "tables_call B clock eng db storeName (DeleteCall None) = (Returns (Done (Resolved ())), db')"
      using ex a(2) by (simp add: tables_call_def)
    moreover have "map_of db' storeName = Some (os\<lparr>rows := []\<rparr>)" using m e by simp
    moreover have "\<forall>s. s \<noteq> storeName \<longrightarrow> map_of db' s = map_of db s"
      using o by (simp add: map_of_set_prop)
    ultimately show ?thesis by (simp add: applyQuery_new_QueryBuilder)
  qed
  have opn: "db_conn (last (fst (open_IDB sch (constructor_IDB name ver) be)))
         \<and> map_of (tables (last (fst (open_IDB sch (constructor_IDB name ver) be)))) storeName
             = Some storeSchema
         \<and> (\<exists>os'. map_of (stores (snd (open_IDB sch (constructor_IDB name ver) be))) storeName
                     = Some os'
                  \<and> store_wf os' \<and> getPrimaryKeyPath storeSchema = Some (keyPath os')
                  \<and> keyPath os' \<noteq> [])"
    if b: "stored_version be < ver" "distinct (map fst sch)" "(storeName, storeSchema) \<in> set sch"
      "map_of (stores be) storeName = None" "pk_names_nonempty storeSchema"
      "readyPromise (last (fst (open_IDB sch (constructor_IDB name ver) be))) = Resolved ()"
    using open_IDB_creates_keyed_store[OF b] by blast
  have inv: "store_wf (snd (be_add r os)) \<and> store_wf (snd (be_put r os))
         \<and> store_wf (snd (be_delete key os))" if "store_wf os"
    using that be_add_store_wf[of os r "fst (be_add r os)" "snd (be_add r os)"]
      be_put_store_wf[of os r "fst (be_put r os)" "snd (be_put r os)"]
      be_delete_store_wf[of os key "fst (be_delete key os)" "snd (be_delete key os)"]
    by simp
  from del opn inv show ?thesis by blast
qed

theorem delete_without_where_removes_every_record_witness:
  "db_conn todo_engine \<and> map_of (tables todo_engine) ''todos'' = Some todo_columns
   \<and> map_of [(''todos'', todo_store)] ''todos'' = Some todo_store
   \<and> store_wf todo_store \<and> getPrimaryKeyPath todo_columns = Some (keyPath todo_store)
   \<and> keyPath todo_store \<noteq> []
   \<and> (\<exists>db'. tables_call sample_builtins (\<lambda>i. VNull) todo_engine [(''todos'', todo_store)]
                ''todos'' (DeleteCall None)
              = (Returns (Done (Resolved ())), db')
            \<and> map_of db' ''todos'' = Some (todo_store\<lparr>rows := []\<rparr>))
   \<and> stored_version \<lparr>stored_version = 0, stores = []\<rparr> < 1
   \<and> distinct (map fst [(''todos'', todo_columns)])
   \<and> (''todos'', todo_columns) \<in> set [(''todos'', todo_columns)]
   \<and> map_of (stores \<lparr>stored_version = 0, stores = []\<rparr>) ''todos'' = None
   \<and> pk_names_nonempty todo_columns
   \<and> readyPromise todo_engine = Resolved ()
   \<and> (\<exists>os'. map_of (stores (snd (open_IDB [(''todos'', todo_columns)] (constructor_IDB ''app'' 1)
                                     \<lparr>stored_version = 0, stores = []\<rparr>))) ''todos'' = Some os'
             \<and> store_wf os' \<and> getPrimaryKeyPath todo_columns = Some (keyPath os')
             \<and> keyPath os' \<noteq> [])
   \<and> store_wf (snd (be_add (todo_row 3 False) todo_store))"
proof -
  let ?be = "\<lparr>stored_version = 0, stores = []\<rparr>"
  have h1: "db_conn todo_engine" by (simp add: todo_engine_ready)
  have h2: "map_of (tables todo_engine) ''todos'' = Some todo_columns"
    by (simp add: todo_engine_ready)
  have h3: "map_of [(''todos'', todo_store)] ''todos'' = Some todo_store" by simp
  have h4: "store_wf todo_store"
    by (simp add: store_wf_def todo_store_def todo_row_def get_prop_def)
  have h5: "getPrimaryKeyPath todo_columns = Some (keyPath todo_store)"
    by (simp add: todo_columns_def todo_store_def plain_column_def truthy_def)
  have h6: "keyPath todo_store \<noteq> []" by (simp add: todo_store_def)
  have g1: "stored_version ?be < 1" by simp
  have g2: "distinct (map fst [(''todos'', todo_columns)])" by simp
  have g3: "(''todos'', todo_columns) \<in> set [(''todos'', todo_columns)]" by simp
  have g4: "map_of (stores ?be) ''todos'' = None" by simp
  have g5: "pk_names_nonempty todo_columns"
    by (simp add: pk_names_nonempty_def todo_columns_def)
  have g6: "readyPromise todo_engine = Resolved ()" by (simp add: todo_engine_ready)
  then have g6': "readyPromise (last (fst (open_IDB [(''todos'', todo_columns)]
                     (constructor_IDB ''app'' 1) ?be))) = Resolved ()"
    by (simp only: todo_engine_def)
  note t = delete_without_where_removes_every_record
      [of todo_engine "''todos''" todo_columns "[(''todos'', todo_store)]" todo_store
          sample_builtins "\<lambda>i. VNull" ?be 1 "[(''todos'', todo_columns)]" "''app''"
          "todo_row 3 False" VNull]
  from t h1 h2 h3 h4 h5 h6
  have c1: "\<exists>db'. tables_call sample_builtins (\<lambda>i. VNull) todo_engine [(''todos'', todo_store)]
                ''todos'' (DeleteCall None)
              = (Returns (Done (Resolved ())), db')
            \<and> map_of db' ''todos'' = Some (todo_store\<lparr>rows := []\<rparr>)"
    by blast
  from t g1 g2 g3 g4 g5 g6'
  have c2: "\<exists>os'. map_of (stores (snd (open_IDB [(''todos'', todo_columns)]
                     (constructor_IDB ''app'' 1) ?be))) ''todos'' = Some os'
             \<and> store_wf os' \<and> getPrimaryKeyPath todo_columns = Some (keyPath os')
             \<and> keyPath os' \<noteq> []"
    by blast
  from t h4 have c3: "store_wf (snd (be_add (todo_row 3 False) todo_store))" by blast
  from h1 h2 h3 h4 h5 h6 c1 g1 g2 g3 g4 g5 g6 c2 c3 show ?thesis by (intro conjI)
qed

subsection \<open>Ordering\<close>

lemma mset_insert_by: "mset (insert_by cmp x ys) = add_mset x (mset ys)"
  by (induction ys) simp_all

lemma mset_sort_by: "mset (sort_by cmp xs) = mset xs"
  unfolding sort_by_def by (induction xs) (simp_all add: mset_insert_by)

lemma set_insert_by: "set (insert_by cmp x ys) = insert x (set ys)"
  by (induction ys) auto

lemma set_sort_by: "set (sort_by cmp xs) = set xs"
  by (metis mset_sort_by set_mset_mset)

lemma num_less_asym: "num_less a b = Some True \<Longrightarrow> num_less b a = Some False"
  by (cases a; cases b) simp_all

lemma js_less_asym: "js_less B x y = Some True \<Longrightarrow> js_less B y x = Some False"
  unfolding js_less_def
  by (cases "to_primitive B x"; cases "to_primitive B y") (auto dest: num_less_asym)

lemma compare_field_flip: "compare_field B fd b a = - compare_field B fd a b"
  using js_less_asym[of B "read_prop a (fst fd)" "read_prop b (fst fd)"]
        js_less_asym[of B "read_prop b (fst fd)" "read_prop a (fst fd)"]
  by (auto simp: compare_field_def Let_def js_lt_def js_gt_def)

lemma compare_records_flip: "compare_records B ks b a = - compare_records B ks a b"
  by (induction ks) (simp_all add: compare_field_flip[of B _ b a])

lemma sorted_insert_by:
  assumes tr: "\<And>a b c. a \<in> S \<Longrightarrow> b \<in> S \<Longrightarrow> c \<in> S \<Longrightarrow> cmp a b \<le> 0 \<Longrightarrow> cmp b c \<le> 0
                 \<Longrightarrow> cmp a c \<le> (0::int)"
    and fl: "\<And>a b. a \<in> S \<Longrightarrow> b \<in> S \<Longrightarrow> (cmp a b < 0) = (0 < cmp b a)"
    and "x \<in> S" "set ys \<subseteq> S" "sorted_wrt (\<lambda>a b. cmp a b \<le> 0) ys"
  shows "sorted_wrt (\<lambda>a b. cmp a b \<le> 0) (insert_by cmp x ys)"
  using assms(3-)
proof (induction ys)
  case Nil
  then show ?case by simp
next
  case (Cons y ys)
  show ?case
  proof (cases "cmp x y \<le> 0")
    case True
    have "cmp x z \<le> 0" if "z \<in> set ys" for z
    proof -
      from Cons.prems that have "cmp y z \<le> 0" by auto
      with True show ?thesis using tr[of x y z] Cons.prems that by auto
    qed
    with True Cons.prems show ?thesis by auto
  next
    case False
    then have "cmp y x \<le> 0" using fl[of y x] Cons.prems by simp
    with False Cons show ?thesis by (auto simp: set_insert_by)
  qed
qed

lemma sorted_sort_by:
  assumes tr: "\<And>a b c. a \<in> set xs \<Longrightarrow> b \<in> set xs \<Longrightarrow> c \<in> set xs \<Longrightarrow> cmp a b \<le> 0
                 \<Longrightarrow> cmp b c \<le> 0 \<Longrightarrow> cmp a c \<le> (0::int)"
    and fl: "\<And>a b. a \<in> set xs \<Longrightarrow> b \<in> set xs \<Longrightarrow> (cmp a b < 0) = (0 < cmp b a)"
  shows "sorted_wrt (\<lambda>a b. cmp a b \<le> 0) (sort_by cmp xs)"
proof -
  have "set ys \<subseteq> set xs \<Longrightarrow> sorted_wrt (\<lambda>a b. cmp a b \<le> 0) (foldr (insert_by cmp) ys [])" for ys
  proof (induction ys)
    case Nil
    then show ?case by simp
  next
    case (Cons y ys)
    then have s: "sorted_wrt (\<lambda>a b. cmp a b \<le> 0) (foldr (insert_by cmp) ys [])" by simp
    have "set (foldr (insert_by cmp) ys []) = set ys"
      using set_sort_by[of cmp ys] by (simp add: sort_by_def)
    with Cons.prems have sub: "set (foldr (insert_by cmp) ys []) \<subseteq> set xs" by simp
    from Cons.prems have y: "y \<in> set xs" by simp
    show ?case using sorted_insert_by[of "set xs" cmp y, OF tr fl y sub s] by simp
  qed
  then show ?thesis by (simp add: sort_by_def)
qed

lemma consistent_comparatorD:
  assumes "consistent_comparator cmp xs"
  shows "a \<in> set xs \<Longrightarrow> b \<in> set xs \<Longrightarrow> (cmp a b < 0) = (0 < cmp b a)"
    and "a \<in> set xs \<Longrightarrow> b \<in> set xs \<Longrightarrow> c \<in> set xs \<Longrightarrow> cmp a b \<le> 0 \<Longrightarrow> cmp b c \<le> 0
         \<Longrightarrow> cmp a c \<le> 0"
  using assms unfolding consistent_comparator_def list_all_iff by blast+

text \<open>The stable insertion sort is a sort that ECMAScript allows.\<close>

lemma sort_by_conforming: "conforming_sort sort_by"
  unfolding conforming_sort_def
proof (intro allI impI conjI)
  fix cmp :: "'a \<Rightarrow> 'a \<Rightarrow> int" and xs
  assume c: "consistent_comparator cmp xs"
  show "mset (sort_by cmp xs) = mset xs" by (rule mset_sort_by)
  show "sorted_wrt (\<lambda>a b. cmp a b \<le> 0) (sort_by cmp xs)"
    by (rule sorted_sort_by) (erule (4) consistent_comparatorD(2)[OF c],
        erule (1) consistent_comparatorD(1)[OF c])
qed

lemma compare_records_first_nonzero:
  "compare_records B ks a b =
     (case find (\<lambda>fd. compare_field B fd a b \<noteq> 0) ks of
        None \<Rightarrow> 0 | Some fd \<Rightarrow> compare_field B fd a b)"
  by (induction ks) simp_all

lemma compare_field_null:
  "read_prop a f = VNull \<Longrightarrow> read_prop b f \<noteq> VNull \<Longrightarrow>
     compare_field B (f, Asc) a b = - 1 \<and> compare_field B (f, Asc) b a = 1
     \<and> compare_field B (f, Desc) a b = 1 \<and> compare_field B (f, Desc) b a = - 1"
  by (simp add: compare_field_def)

lemma sorted_wrt_slice0: "sorted_wrt P xs \<Longrightarrow> sorted_wrt P (slice0 xs l)"
  by (cases l) (simp_all add: sorted_wrt_take)

lemma num_less_rank:
  "a \<noteq> NaN \<Longrightarrow> b \<noteq> NaN \<Longrightarrow> num_less a b = Some (num_rank a < num_rank b)"
  by (cases a; cases b) simp_all

lemma keyed_weak_order:
  fixes key :: "'a \<Rightarrow> 'k::linorder"
  assumes "\<And>a b. a \<in> S \<Longrightarrow> b \<in> S \<Longrightarrow>
             cf a b = s * (if key a < key b then - 1 else if key b < key a then 1 else 0)"
    and "s = 1 \<or> s = - 1"
  shows "weak_order_on cf S"
  unfolding weak_order_on_def
proof (intro ballI)
  fix a b c assume m: "a \<in> S" "b \<in> S" "c \<in> S"
  note e = assms(1)[OF m(1) m(2)] assms(1)[OF m(2) m(3)] assms(1)[OF m(1) m(3)]
  from assms(2) show "(cf a b \<le> 0 \<and> cf b c \<le> 0 \<longrightarrow> cf a c \<le> 0)
        \<and> (cf a b < 0 \<and> cf b c \<le> 0 \<longrightarrow> cf a c < 0)
        \<and> (cf a b \<le> 0 \<and> cf b c < 0 \<longrightarrow> cf a c < 0)"
    unfolding e by (elim disjE) (auto split: if_splits)
qed

lemma js_less_numeric:
  "numeric_like v \<Longrightarrow> numeric_like w \<Longrightarrow>
   js_less B v w = Some (num_rank (to_number B v) < num_rank (to_number B w))"
  by (cases v; cases w) (simp_all add: js_less_def num_less_rank)

lemma num_key_above_null: "numeric_like v \<Longrightarrow> (- 2, 0) < num_rank (to_number B v)"
  by (cases v; cases "to_number B v") (auto split: if_splits)

lemma compare_field_numeric:
  assumes "read_prop a f = VNull \<or> numeric_like (read_prop a f)"
    and "read_prop b f = VNull \<or> numeric_like (read_prop b f)"
  shows "compare_field B (f, d) a b
     = (if d = Desc then - 1 else 1)
       * (if num_key B (read_prop a f) < num_key B (read_prop b f) then - 1
          else if num_key B (read_prop b f) < num_key B (read_prop a f) then 1 else 0)"
proof -
  have nn: "numeric_like v \<Longrightarrow> v \<noteq> VNull" for v by auto
  show ?thesis
    using assms num_key_above_null[of "read_prop a f" B] num_key_above_null[of "read_prop b f" B]
      js_less_numeric[of "read_prop a f" "read_prop b f" B]
      js_less_numeric[of "read_prop b f" "read_prop a f" B]
    by (auto simp: compare_field_def Let_def js_lt_def js_gt_def num_key_def dest: nn)
qed

lemma compare_field_string:
  assumes "read_prop a f = VNull \<or> is_string (read_prop a f)"
    and "read_prop b f = VNull \<or> is_string (read_prop b f)"
  shows "compare_field B (f, d) a b
     = (if d = Desc then - 1 else 1)
       * (if str_key (read_prop a f) < str_key (read_prop b f) then - 1
          else if str_key (read_prop b f) < str_key (read_prop a f) then 1 else 0)"
proof -
  have s: "is_string v \<Longrightarrow> \<exists>x. v = VStr x" for v by (cases v) auto
  show ?thesis
    using assms
    by (auto simp: compare_field_def Let_def js_lt_def js_gt_def js_less_def str_key_def dest!: s)
qed

lemma column_typed_weak_order:
  assumes "column_typed f recs"
  shows "weak_order_on (compare_field B (f, d)) (set recs)"
  using assms unfolding column_typed_def list_all_iff
proof (elim disjE)
  assume n: "\<forall>r\<in>set recs. read_prop r f = VNull \<or> numeric_like (read_prop r f)"
  show ?thesis
    by (rule keyed_weak_order[where key = "\<lambda>r. num_key B (read_prop r f)"
          and s = "if d = Desc then - 1 else 1"])
       (use n in \<open>simp_all add: compare_field_numeric\<close>)
next
  assume n: "\<forall>r\<in>set recs. read_prop r f = VNull \<or> is_string (read_prop r f)"
  show ?thesis
    by (rule keyed_weak_order[where key = "\<lambda>r. str_key (read_prop r f)"
          and s = "if d = Desc then - 1 else 1"])
       (use n in \<open>simp_all add: compare_field_string\<close>)
qed

lemma weak_order_zero:
  assumes "weak_order_on cf S" and "\<And>a b. cf b a = - cf a b"
    and "a \<in> S" "b \<in> S" "c \<in> S" "cf a b = 0" "cf b c = 0"
  shows "cf a c = 0"
proof -
  from assms(1,3-7) have "cf a c \<le> 0" unfolding weak_order_on_def by (metis order_refl)
  moreover from assms(2,6,7) have "cf c b = 0" "cf b a = 0" by (metis minus_zero)+
  with assms(1,3-5) have "cf c a \<le> 0" unfolding weak_order_on_def by (metis order_refl)
  with assms(2)[of c a] have "0 \<le> cf a c" by simp
  ultimately show ?thesis by simp
qed

lemma compare_records_weak_order:
  assumes "\<forall>fd\<in>set ks. weak_order_on (compare_field B fd) S"
  shows "weak_order_on (compare_records B ks) S"
  using assms
proof (induction ks)
  case Nil
  then show ?case by (simp add: weak_order_on_def)
next
  case (Cons fd ks)
  then have w: "weak_order_on (compare_field B fd) S"
    and ih: "weak_order_on (compare_records B ks) S" by simp_all
  show ?case unfolding weak_order_on_def
  proof (intro ballI)
    fix a b c assume m: "a \<in> S" "b \<in> S" "c \<in> S"
    from w m have f: "(compare_field B fd a b \<le> 0 \<and> compare_field B fd b c \<le> 0 \<longrightarrow> compare_field B fd a c \<le> 0)
        \<and> (compare_field B fd a b < 0 \<and> compare_field B fd b c \<le> 0 \<longrightarrow> compare_field B fd a c < 0)
        \<and> (compare_field B fd a b \<le> 0 \<and> compare_field B fd b c < 0 \<longrightarrow> compare_field B fd a c < 0)"
      unfolding weak_order_on_def by blast
    from ih m have r: "(compare_records B ks a b \<le> 0 \<and> compare_records B ks b c \<le> 0 \<longrightarrow> compare_records B ks a c \<le> 0)
        \<and> (compare_records B ks a b < 0 \<and> compare_records B ks b c \<le> 0 \<longrightarrow> compare_records B ks a c < 0)
        \<and> (compare_records B ks a b \<le> 0 \<and> compare_records B ks b c < 0 \<longrightarrow> compare_records B ks a c < 0)"
      unfolding weak_order_on_def by blast
    have z: "compare_field B fd a b = 0 \<Longrightarrow> compare_field B fd b c = 0 \<Longrightarrow> compare_field B fd a c = 0"
      using weak_order_zero[OF w compare_field_flip m] by blast
    show "(compare_records B (fd # ks) a b \<le> 0 \<and> compare_records B (fd # ks) b c \<le> 0
              \<longrightarrow> compare_records B (fd # ks) a c \<le> 0)
        \<and> (compare_records B (fd # ks) a b < 0 \<and> compare_records B (fd # ks) b c \<le> 0
              \<longrightarrow> compare_records B (fd # ks) a c < 0)
        \<and> (compare_records B (fd # ks) a b \<le> 0 \<and> compare_records B (fd # ks) b c < 0
              \<longrightarrow> compare_records B (fd # ks) a c < 0)"
      using f r z by (simp split: if_splits) linarith
  qed
qed

lemma typed_columns_consistent:
  assumes "list_all (\<lambda>fd. column_typed (fst fd) recs) ks"
  shows "consistent_comparator (compare_records B ks) recs"
proof -
  have "\<forall>fd\<in>set ks. weak_order_on (compare_field B fd) (set recs)"
    using assms column_typed_weak_order[of _ recs B]
    by (auto simp: list_all_iff)
  then have "weak_order_on (compare_records B ks) (set recs)"
    by (rule compare_records_weak_order)
  then have tr: "\<forall>a\<in>set recs. \<forall>b\<in>set recs. \<forall>c\<in>set recs.
       compare_records B ks a b \<le> 0 \<and> compare_records B ks b c \<le> 0
       \<longrightarrow> compare_records B ks a c \<le> 0"
    unfolding weak_order_on_def by blast
  have fl: "(compare_records B ks a b < 0) = (0 < compare_records B ks b a)" for a b
    using compare_records_flip[of B ks b a] by simp
  show ?thesis unfolding consistent_comparator_def list_all_iff using tr fl by blast
qed

lemma compare_field_desc: "compare_field B (f, Desc) a b = - compare_field B (f, Asc) a b"
  by (simp add: compare_field_def Let_def)

lemma compare_field_both_null:
  "read_prop a f = VNull \<Longrightarrow> read_prop b f = VNull \<Longrightarrow> compare_field B (f, d) a b = 0"
  by (simp add: compare_field_def)

lemma compare_field_numbers:
  assumes "numeric_like (read_prop a f)" and "numeric_like (read_prop b f)"
  shows "compare_field B (f, Asc) a b
     = three_way (num_rank (to_number B (read_prop a f))) (num_rank (to_number B (read_prop b f)))"
proof -
  have nn: "numeric_like v \<Longrightarrow> v \<noteq> VNull" for v by auto
  show ?thesis
    using compare_field_numeric[of a f b B Asc] assms nn[OF assms(1)] nn[OF assms(2)]
    by (simp add: num_key_def three_way_def)
qed

lemma compare_field_strings:
  assumes "is_string (read_prop a f)" and "is_string (read_prop b f)"
  shows "compare_field B (f, Asc) a b
     = three_way (str_of (read_prop a f)) (str_of (read_prop b f))"
proof -
  have nn: "is_string v \<Longrightarrow> v \<noteq> VNull" for v by auto
  show ?thesis
    using compare_field_string[of a f b B Asc] assms nn[OF assms(1)] nn[OF assms(2)]
    by (auto simp: str_key_def three_way_def)
qed

lemma applyQuery_slices:
  "applyQuery B q data = filtered_sorted B q data
   \<or> (\<exists>l. applyQuery B q data = slice0 (filtered_sorted B q data) l)"
  by (auto simp: applyQuery_def filtered_sorted_def Let_def split: option.splits)

lemma filtered_sorted_ordered:
  assumes "conforming_sort (ArraySort B)"
    and "consistent_comparator (compare_records B (orderByConditions q)) (filter (matches B q) data)"
  shows "mset (filtered_sorted B q data) = mset (filter (matches B q) data)
     \<and> in_key_order B q (filtered_sorted B q data)
     \<and> in_key_order B q (applyQuery B q data)"
proof -
  let ?ks = "orderByConditions q" and ?fs = "filter (matches B q) data"
  have a: "mset (filtered_sorted B q data) = mset ?fs \<and> in_key_order B q (filtered_sorted B q data)"
  proof (cases "?ks = []")
    case True
    then show ?thesis by (simp add: filtered_sorted_def in_key_order_def sorted_wrt_iff_nth_less)
  next
    case False
    from assms have "mset (ArraySort B (compare_records B ?ks) ?fs) = mset ?fs
        \<and> sorted_wrt (\<lambda>x y. compare_records B ?ks x y \<le> 0) (ArraySort B (compare_records B ?ks) ?fs)"
      unfolding conforming_sort_def by blast
    with False show ?thesis by (simp add: filtered_sorted_def in_key_order_def)
  qed
  then have "in_key_order B q (applyQuery B q data)"
    using applyQuery_slices[of B q data]
    unfolding in_key_order_def by (auto intro: sorted_wrt_slice0)
  with a show ?thesis by simp
qed

text \<open>
  C8, as stated, fails: the second of three records lacks the ordering column
  \<open>updatedAt\<close>, which the comparator reads as \<open>undefined\<close> and ties with every value; the
  ordering keys are \<open>updatedAt\<close> and then \<open>id\<close>, both ascending. The first record then
  compares before the second and the second before the third by \<open>id\<close>, and the third
  before the first by \<open>updatedAt\<close>. With the insertion sort \<open>applyQuery\<close> returns the
  records as they were, the one with the later date before the one with the earlier date;
  and whatever the sort of the runtime, none of the six arrangements of the three records
  is in the order of the keys.
\<close>

theorem applyQuery_missing_field_unordered:
  "applyQuery sample_builtins cycle_query cycle_rows = cycle_rows
   \<and> compare_records sample_builtins (orderByConditions cycle_query)
        (dated_row 1 (VDate 10 (Fin 9))) (dated_row 3 (VDate 11 (Fin 5))) = 1
   \<and> \<not> in_key_order sample_builtins cycle_query
         [dated_row 1 (VDate 10 (Fin 9)), [(''id'', VNum (Fin 2))], dated_row 3 (VDate 11 (Fin 5))]
   \<and> \<not> in_key_order sample_builtins cycle_query
         [dated_row 1 (VDate 10 (Fin 9)), dated_row 3 (VDate 11 (Fin 5)), [(''id'', VNum (Fin 2))]]
   \<and> \<not> in_key_order sample_builtins cycle_query
         [[(''id'', VNum (Fin 2))], dated_row 1 (VDate 10 (Fin 9)), dated_row 3 (VDate 11 (Fin 5))]
   \<and> \<not> in_key_order sample_builtins cycle_query
         [[(''id'', VNum (Fin 2))], dated_row 3 (VDate 11 (Fin 5)), dated_row 1 (VDate 10 (Fin 9))]
   \<and> \<not> in_key_order sample_builtins cycle_query
         [dated_row 3 (VDate 11 (Fin 5)), dated_row 1 (VDate 10 (Fin 9)), [(''id'', VNum (Fin 2))]]
   \<and> \<not> in_key_order sample_builtins cycle_query
         [dated_row 3 (VDate 11 (Fin 5)), [(''id'', VNum (Fin 2))], dated_row 1 (VDate 10 (Fin 9))]"
proof -
  let ?a = "dated_row 1 (VDate 10 (Fin 9))" and ?b = "[(''id'', VNum (Fin 2))]"
  let ?c = "dated_row 3 (VDate 11 (Fin 5))"
  let ?ks = "[(''updatedAt'', Asc), (''id'', Asc)]"
  have ks: "orderByConditions cycle_query = ?ks"
    by (simp add: cycle_query_def orderBy_def new_QueryBuilder_def)
  have q: "cycle_query = \<lparr>conditions = [], limitValue = None, orderByConditions = ?ks\<rparr>"
    by (simp add: cycle_query_def orderBy_def new_QueryBuilder_def)
  have ab: "compare_records sample_builtins ?ks ?a ?b = - 1"
    and ba: "compare_records sample_builtins ?ks ?b ?a = 1"
    and bc: "compare_records sample_builtins ?ks ?b ?c = - 1"
    and cb: "compare_records sample_builtins ?ks ?c ?b = 1"
    and ac: "compare_records sample_builtins ?ks ?a ?c = 1"
    and ca: "compare_records sample_builtins ?ks ?c ?a = - 1"
    by (simp_all add: compare_field_def dated_row_def read_prop_def inherited_def
        object_prototype_def js_lt_def js_gt_def js_less_def)
  have r: "applyQuery sample_builtins cycle_query cycle_rows = cycle_rows"
    unfolding q cycle_rows_def applyQuery_def
    by (simp add: matches_def sample_builtins_def sort_by_def
        ab[unfolded sample_builtins_def] bc[unfolded sample_builtins_def]
        del: compare_records.simps)
  show ?thesis
    unfolding in_key_order_def ks
    using r ab ba bc cb ac ca by (simp del: compare_records.simps)
qed

text \<open>
  C8, amended: the comparator that \<open>applyQuery\<close> hands to the sort of the runtime goes
  through the ordering keys in registration order and returns the comparison of the first
  key that tells the two records apart, so later keys only break ties. Under one key a null
  value compares before a non-null one when the direction is ascending and, the sign being
  flipped, after it when the direction is descending; two nulls tie; two numbers, booleans
  or valid dates compare by their numeric value and two strings by their code units.
  Without a limit the result is the filtered and sorted list. When every ordering column is
  typed on the matching records (so no matching record lacks the column), or more generally
  when the comparator is consistent on them, and the sort of the runtime is one that
  ECMAScript allows, the filtered and sorted list holds the matching records, each as often
  as the data holds it, in the order of the keys, and what a limit leaves of it is in that
  order too.
\<close>

theorem applyQuery_orders_by_keys:
  "compare_records B ks a b =
     (case find (\<lambda>fd. compare_field B fd a b \<noteq> 0) ks of
        None \<Rightarrow> 0 | Some fd \<Rightarrow> compare_field B fd a b)
   \<and> compare_field B (f, Desc) a b = - compare_field B (f, Asc) a b
   \<and> (read_prop a f = VNull \<and> read_prop b f \<noteq> VNull \<longrightarrow>
        compare_field B (f, Asc) a b = - 1 \<and> compare_field B (f, Asc) b a = 1
        \<and> compare_field B (f, Desc) a b = 1 \<and> compare_field B (f, Desc) b a = - 1)
   \<and> (read_prop a f = VNull \<and> read_prop b f = VNull \<longrightarrow> compare_field B (f, Asc) a b = 0)
   \<and> (numeric_like (read_prop a f) \<and> numeric_like (read_prop b f) \<longrightarrow>
        compare_field B (f, Asc) a b
          = three_way (num_rank (to_number B (read_prop a f)))
              (num_rank (to_number B (read_prop b f))))
   \<and> (is_string (read_prop a f) \<and> is_string (read_prop b f) \<longrightarrow>
        compare_field B (f, Asc) a b = three_way (str_of (read_prop a f)) (str_of (read_prop b f)))
   \<and> (limitValue q = None \<longrightarrow> applyQuery B q data = filtered_sorted B q data)
   \<and> (list_all (\<lambda>fd. column_typed (fst fd) (filter (matches B q) data)) (orderByConditions q)
        \<longrightarrow> consistent_comparator (compare_records B (orderByConditions q))
              (filter (matches B q) data))
   \<and> (conforming_sort (ArraySort B)
       \<and> consistent_comparator (compare_records B (orderByConditions q))
            (filter (matches B q) data)
        \<longrightarrow> mset (filtered_sorted B q data) = mset (filter (matches B q) data)
            \<and> in_key_order B q (filtered_sorted B q data)
            \<and> in_key_order B q (applyQuery B q data))
   \<and> (conforming_sort (ArraySort B)
       \<and> list_all (\<lambda>fd. column_typed (fst fd) (filter (matches B q) data)) (orderByConditions q)
        \<longrightarrow> mset (filtered_sorted B q data) = mset (filter (matches B q) data)
            \<and> in_key_order B q (filtered_sorted B q data)
            \<and> in_key_order B q (applyQuery B q data))"
proof -
  have nolimit: "limitValue q = None \<Longrightarrow> applyQuery B q data = filtered_sorted B q data"
    by (simp add: applyQuery_def filtered_sorted_def Let_def)
  show ?thesis
    using compare_records_first_nonzero[of B ks a b] compare_field_null[of a f b B]
      compare_field_desc[of B f a b] compare_field_both_null[of a f b B Asc]
      compare_field_numbers[of a f b B] compare_field_strings[of a f b B]
      nolimit typed_columns_consistent[of "filter (matches B q) data" "orderByConditions q" B]
      filtered_sorted_ordered[of B q data]
    by (intro conjI impI) simp_all
qed

theorem applyQuery_orders_by_keys_witness:
  "read_prop (dated_row 2 VNull) ''updatedAt'' = VNull
   \<and> read_prop (dated_row 1 (VDate 10 (Fin 5))) ''updatedAt'' \<noteq> VNull
   \<and> compare_field sample_builtins (''updatedAt'', Asc)
        (dated_row 2 VNull) (dated_row 1 (VDate 10 (Fin 5))) = - 1
   \<and> compare_field sample_builtins (''updatedAt'', Desc)
        (dated_row 2 VNull) (dated_row 1 (VDate 10 (Fin 5))) = 1
   \<and> read_prop (dated_row 4 VNull) ''updatedAt'' = VNull
   \<and> compare_field sample_builtins (''updatedAt'', Asc) (dated_row 2 VNull) (dated_row 4 VNull) = 0
   \<and> numeric_like (read_prop (dated_row 1 VNull) ''id'')
   \<and> numeric_like (read_prop (dated_row 3 VNull) ''id'')
   \<and> compare_field sample_builtins (''id'', Asc) (dated_row 1 VNull) (dated_row 3 VNull) = - 1
   \<and> compare_field sample_builtins (''id'', Desc) (dated_row 1 VNull) (dated_row 3 VNull) = 1
   \<and> is_string (read_prop [(''title'', VStr ''pear'')] ''title'')
   \<and> is_string (read_prop [(''title'', VStr ''apple'')] ''title'')
   \<and> compare_field sample_builtins (''title'', Asc)
        [(''title'', VStr ''pear'')] [(''title'', VStr ''apple'')] = 1
   \<and> limitValue dated_query = None
   \<and> conforming_sort (ArraySort sample_builtins)
   \<and> list_all (\<lambda>fd. column_typed (fst fd) (filter (matches sample_builtins dated_query) dated_rows))
        (orderByConditions dated_query)
   \<and> consistent_comparator (compare_records sample_builtins (orderByConditions dated_query))
        (filter (matches sample_builtins dated_query) dated_rows)
   \<and> mset (filtered_sorted sample_builtins dated_query dated_rows)
       = mset (filter (matches sample_builtins dated_query) dated_rows)
   \<and> applyQuery sample_builtins dated_query dated_rows
       = [dated_row 2 VNull, dated_row 3 (VDate 11 (Fin 5)), dated_row 1 (VDate 10 (Fin 5))]
   \<and> filtered_sorted sample_builtins dated_query dated_rows
       = [dated_row 2 VNull, dated_row 3 (VDate 11 (Fin 5)), dated_row 1 (VDate 10 (Fin 5))]
   \<and> in_key_order sample_builtins dated_query
        [dated_row 2 VNull, dated_row 3 (VDate 11 (Fin 5)), dated_row 1 (VDate 10 (Fin 5))]"
proof -
  let ?B = sample_builtins
  let ?r1 = "dated_row 1 (VDate 10 (Fin 5))" and ?r2 = "dated_row 2 VNull"
  let ?r3 = "dated_row 3 (VDate 11 (Fin 5))"
  have ks: "orderByConditions dated_query = [(''updatedAt'', Asc), (''id'', Desc)]"
    by (simp add: dated_query_def orderBy_def new_QueryBuilder_def)
  have fs: "filter (matches ?B dated_query) dated_rows = dated_rows"
    by (simp add: matches_def dated_query_def orderBy_def new_QueryBuilder_def)
  have n1: "read_prop ?r2 ''updatedAt'' = VNull" by (simp add: dated_row_def read_prop_def)
  have n2: "read_prop ?r1 ''updatedAt'' \<noteq> VNull" by (simp add: dated_row_def read_prop_def)
  have n3: "read_prop (dated_row 4 VNull) ''updatedAt'' = VNull"
    by (simp add: dated_row_def read_prop_def)
  have m1: "numeric_like (read_prop (dated_row 1 VNull) ''id'')"
    and m2: "numeric_like (read_prop (dated_row 3 VNull) ''id'')"
    by (simp_all add: dated_row_def read_prop_def)
  have s1: "is_string (read_prop [(''title'', VStr ''pear'')] ''title'')"
    and s2: "is_string (read_prop [(''title'', VStr ''apple'')] ''title'')"
    by (simp_all add: read_prop_def)
  have l: "limitValue dated_query = None"
    by (simp add: dated_query_def orderBy_def new_QueryBuilder_def)
  have cs: "conforming_sort (ArraySort ?B)"
    by (simp add: sample_builtins_def sort_by_conforming)
  have h: "list_all (\<lambda>fd. column_typed (fst fd) (filter (matches ?B dated_query) dated_rows))
             (orderByConditions dated_query)"
    unfolding ks fs by (simp add: column_typed_def dated_rows_def dated_row_def read_prop_def)
  note t1 = applyQuery_orders_by_keys[of ?B "[]" ?r2 ?r1 "''updatedAt''" dated_query dated_rows]
  note t2 = applyQuery_orders_by_keys
      [of ?B "[]" ?r2 "dated_row 4 VNull" "''updatedAt''" dated_query dated_rows]
  note t3 = applyQuery_orders_by_keys
      [of ?B "[]" "dated_row 1 VNull" "dated_row 3 VNull" "''id''" dated_query dated_rows]
  note t4 = applyQuery_orders_by_keys
      [of ?B "[]" "[(''title'', VStr ''pear'')]" "[(''title'', VStr ''apple'')]" "''title''"
          dated_query dated_rows]
  from t1 n1 n2 have a1: "compare_field ?B (''updatedAt'', Asc) ?r2 ?r1 = - 1"
    and a2: "compare_field ?B (''updatedAt'', Desc) ?r2 ?r1 = 1" by blast+
  from t2 n1 n3
  have a3: "compare_field ?B (''updatedAt'', Asc) ?r2 (dated_row 4 VNull) = 0" by blast
  from t3 m1 m2
  have "compare_field ?B (''id'', Asc) (dated_row 1 VNull) (dated_row 3 VNull)
        = three_way (num_rank (to_number ?B (read_prop (dated_row 1 VNull) ''id'')))
            (num_rank (to_number ?B (read_prop (dated_row 3 VNull) ''id'')))"
    by blast
  then have a4: "compare_field ?B (''id'', Asc) (dated_row 1 VNull) (dated_row 3 VNull) = - 1"
    by (simp add: three_way_def dated_row_def read_prop_def)
  from t3 a4
  have a5: "compare_field ?B (''id'', Desc) (dated_row 1 VNull) (dated_row 3 VNull) = 1"
    by simp
  from t4 s1 s2
  have "compare_field ?B (''title'', Asc) [(''title'', VStr ''pear'')] [(''title'', VStr ''apple'')]
        = three_way (str_of (read_prop [(''title'', VStr ''pear'')] ''title''))
            (str_of (read_prop [(''title'', VStr ''apple'')] ''title''))"
    by blast
  then have a6: "compare_field ?B (''title'', Asc)
                   [(''title'', VStr ''pear'')] [(''title'', VStr ''apple'')] = 1"
    by (simp add: three_way_def read_prop_def less_char_def)
  from t1 h
  have c: "consistent_comparator (compare_records ?B (orderByConditions dated_query))
             (filter (matches ?B dated_query) dated_rows)" by blast
  from t1 cs c have o: "in_key_order ?B dated_query (applyQuery ?B dated_query dated_rows)"
    by blast
  from t1 cs h
  have pm: "mset (filtered_sorted ?B dated_query dated_rows)
            = mset (filter (matches ?B dated_query) dated_rows)"
    by blast
  from t1 l have e: "applyQuery ?B dated_query dated_rows = filtered_sorted ?B dated_query dated_rows"
    by blast
  have r: "applyQuery ?B dated_query dated_rows = [?r2, ?r3, ?r1]"
    unfolding applyQuery_def Let_def fs ks
    by (simp add: dated_query_def dated_rows_def orderBy_def new_QueryBuilder_def
        sample_builtins_def sort_by_def compare_field_def dated_row_def read_prop_def
        js_lt_def js_gt_def js_less_def)
  from e r have f: "filtered_sorted ?B dated_query dated_rows = [?r2, ?r3, ?r1]" by simp
  from o r have s: "in_key_order ?B dated_query [?r2, ?r3, ?r1]" by simp
  from n1 n2 a1 a2 n3 a3 m1 m2 a4 a5 s1 s2 a6 l cs h c pm r f s show ?thesis by (intro conjI)
qed

end
